theory Spec2Isabelle
  imports Complex_Main "HOL-Library.Log_Nat"
begin

section \<open>The number type of the program: IEEE 754 binary64\<close>

text \<open>
  Every numeric value of \<^verbatim>\<open>App.tsx\<close> is a JavaScript \<^verbatim>\<open>number\<close>: a binary64
  floating-point value. A value is NaN, an infinity, a signed zero, or a finite
  non-zero value, which is kept as the real number it denotes. Each arithmetic
  operation computes the exact real result and rounds it to the nearest
  representable value, ties to even, as IEEE 754 prescribes. A decimal literal
  of the source stands for the binary64 value nearest to it.

  \<open>Fin\<close> takes any real, also one that no binary64 value denotes. The theorems
  below hold for every argument all the same; what an operation returns is
  always a binary64 value (\<open>round64_idem\<close>).
\<close>

datatype sign = Plus | Minus

datatype number = NaN | Inf sign | Zero sign | Fin real

fun sign_mul :: "sign \<Rightarrow> sign \<Rightarrow> sign" where
  "sign_mul Plus s = s"
| "sign_mul Minus Plus = Minus"
| "sign_mul Minus Minus = Plus"

definition sign_of_real :: "real \<Rightarrow> sign" where
  "sign_of_real x = (if x < 0 then Minus else Plus)"

fun sign_of :: "number \<Rightarrow> sign" where
  "sign_of NaN = Plus"
| "sign_of (Inf s) = s"
| "sign_of (Zero s) = s"
| "sign_of (Fin x) = sign_of_real x"

subsection \<open>Rounding to nearest, ties to even\<close>

text \<open>\<open>rhe x\<close> is the integer nearest to \<open>x\<close>, the even one of the two at a tie.\<close>

definition rhe :: "real \<Rightarrow> int" where
  "rhe x = (let f = \<lfloor>x\<rfloor>; d = x - of_int f in
     if d < 1 / 2 then f
     else if 1 / 2 < d then f + 1
     else if even f then f else f + 1)"

text \<open>For \<open>0 < x\<close>, \<open>ilog2 x\<close> is the integer \<open>e\<close> with \<open>2 powi e \<le> x < 2 powi (e + 1)\<close>.\<close>

definition ilog2 :: "real \<Rightarrow> int" where
  "ilog2 x = (if 1 \<le> x then bitlen \<lfloor>x\<rfloor> - 1 else - bitlen (\<lceil>1 / x\<rceil> - 1))"

text \<open>
  The binary64 format: 53 significant bits, normal exponents from \<open>-1022\<close> to
  \<open>1023\<close>, subnormal values as multiples of \<open>2 powi (-1074)\<close>. A rounded magnitude
  of \<open>2 powi 1024\<close> or more overflows to infinity; one that rounds to \<open>0\<close>
  underflows to the zero of the same sign.
\<close>

definition ulp_exp :: "real \<Rightarrow> int" where
  "ulp_exp a = max (ilog2 a) (- 1022) - 52"

text \<open>
  For \<open>0 < a\<close>, \<open>nearest a\<close> is the multiple of \<open>2 powi ulp_exp a\<close> nearest to \<open>a\<close>:
  the rounded magnitude, were the exponent unbounded above.
\<close>

definition nearest :: "real \<Rightarrow> real" where
  "nearest a = of_int (rhe (a * 2 powi (- ulp_exp a))) * 2 powi ulp_exp a"

text \<open>The least magnitude that is out of range.\<close>

definition huge :: real where
  "huge = 2 ^ 1024"

definition round64 :: "real \<Rightarrow> number" where
  "round64 x =
     (if x = 0 then Zero Plus
      else let r = nearest \<bar>x\<bar>
           in if huge \<le> r then Inf (sign_of_real x)
              else if r = 0 then Zero (sign_of_real x)
              else Fin (if x < 0 then - r else r))"

subsection \<open>Arithmetic\<close>

fun neg :: "number \<Rightarrow> number" where
  "neg NaN = NaN"
| "neg (Inf Plus) = Inf Minus"
| "neg (Inf Minus) = Inf Plus"
| "neg (Zero Plus) = Zero Minus"
| "neg (Zero Minus) = Zero Plus"
| "neg (Fin x) = Fin (- x)"

fun num_mul :: "number \<Rightarrow> number \<Rightarrow> number" where
  "num_mul NaN _ = NaN"
| "num_mul _ NaN = NaN"
| "num_mul (Inf _) (Zero _) = NaN"
| "num_mul (Zero _) (Inf _) = NaN"
| "num_mul (Inf s) y = Inf (sign_mul s (sign_of y))"
| "num_mul x (Inf t) = Inf (sign_mul (sign_of x) t)"
| "num_mul (Zero s) y = Zero (sign_mul s (sign_of y))"
| "num_mul x (Zero t) = Zero (sign_mul (sign_of x) t)"
| "num_mul (Fin x) (Fin y) = round64 (x * y)"

fun num_div :: "number \<Rightarrow> number \<Rightarrow> number" where
  "num_div NaN _ = NaN"
| "num_div _ NaN = NaN"
| "num_div (Inf _) (Inf _) = NaN"
| "num_div (Zero _) (Zero _) = NaN"
| "num_div (Inf s) y = Inf (sign_mul s (sign_of y))"
| "num_div x (Inf t) = Zero (sign_mul (sign_of x) t)"
| "num_div (Zero s) y = Zero (sign_mul s (sign_of y))"
| "num_div x (Zero t) = Inf (sign_mul (sign_of x) t)"
| "num_div (Fin x) (Fin y) = round64 (x / y)"

fun num_add :: "number \<Rightarrow> number \<Rightarrow> number" where
  "num_add NaN _ = NaN"
| "num_add _ NaN = NaN"
| "num_add (Inf s) (Inf t) = (if s = t then Inf s else NaN)"
| "num_add (Inf s) _ = Inf s"
| "num_add _ (Inf t) = Inf t"
| "num_add (Zero s) (Zero t) = (if s = Minus \<and> t = Minus then Zero Minus else Zero Plus)"
| "num_add (Zero _) (Fin y) = Fin y"
| "num_add (Fin x) (Zero _) = Fin x"
| "num_add (Fin x) (Fin y) = round64 (x + y)"

definition num_sub :: "number \<Rightarrow> number \<Rightarrow> number" where
  "num_sub x y = num_add x (neg y)"

subsection \<open>Comparison\<close>

text \<open>A comparison with NaN is false; the two zeros compare equal.\<close>

fun is_NaN :: "number \<Rightarrow> bool" where
  "is_NaN NaN = True"
| "is_NaN _ = False"

fun is_zero :: "number \<Rightarrow> bool" where
  "is_zero (Zero _) = True"
| "is_zero _ = False"

fun is_infinite :: "number \<Rightarrow> bool" where
  "is_infinite (Inf _) = True"
| "is_infinite _ = False"

fun rank :: "number \<Rightarrow> int" where
  "rank (Inf Minus) = - 1"
| "rank (Inf Plus) = 1"
| "rank _ = 0"

fun real_of :: "number \<Rightarrow> real" where
  "real_of (Fin x) = x"
| "real_of _ = 0"

definition num_lt :: "number \<Rightarrow> number \<Rightarrow> bool" where
  "num_lt x y = (\<not> is_NaN x \<and> \<not> is_NaN y \<and>
     (rank x < rank y \<or> rank x = rank y \<and> real_of x < real_of y))"

definition num_le :: "number \<Rightarrow> number \<Rightarrow> bool" where
  "num_le x y = (\<not> is_NaN x \<and> \<not> is_NaN y \<and>
     (rank x < rank y \<or> rank x = rank y \<and> real_of x \<le> real_of y))"

definition num_ge :: "number \<Rightarrow> number \<Rightarrow> bool" where
  "num_ge x y = num_le y x"

text \<open>The strict equality \<^verbatim>\<open>===\<close> of two numbers.\<close>

definition num_eq :: "number \<Rightarrow> number \<Rightarrow> bool" where
  "num_eq x y = (\<not> is_NaN x \<and> \<not> is_NaN y \<and> rank x = rank y \<and> real_of x = real_of y)"

subsection \<open>The library functions the program calls\<close>

fun Math_abs :: "number \<Rightarrow> number" where
  "Math_abs NaN = NaN"
| "Math_abs (Inf _) = Inf Plus"
| "Math_abs (Zero _) = Zero Plus"
| "Math_abs (Fin x) = Fin \<bar>x\<bar>"

definition is_integral :: "real \<Rightarrow> bool" where
  "is_integral y = (y = of_int \<lfloor>y\<rfloor>)"

fun is_odd_integer :: "number \<Rightarrow> bool" where
  "is_odd_integer (Fin y) = (is_integral y \<and> odd \<lfloor>y\<rfloor>)"
| "is_odd_integer _ = False"

text \<open>
  \<^verbatim>\<open>Math.pow(base, exponent)\<close>, case by case as ECMAScript's Number::exponentiate
  lists them. For a finite non-zero base and exponent the language asks only for
  an implementation-approximated value of the real power, so that case is the
  parameter \<open>pw\<close>, the approximation of the host.
\<close>

fun Math_pow :: "(real \<Rightarrow> real \<Rightarrow> number) \<Rightarrow> number \<Rightarrow> number \<Rightarrow> number" where
  "Math_pow pw _ NaN = NaN"
| "Math_pow pw _ (Zero _) = Fin 1"
| "Math_pow pw NaN _ = NaN"
| "Math_pow pw (Inf Plus) e = (if num_lt (Zero Plus) e then Inf Plus else Zero Plus)"
| "Math_pow pw (Inf Minus) e =
     (if num_lt (Zero Plus) e
      then (if is_odd_integer e then Inf Minus else Inf Plus)
      else (if is_odd_integer e then Zero Minus else Zero Plus))"
| "Math_pow pw (Zero Plus) e = (if num_lt (Zero Plus) e then Zero Plus else Inf Plus)"
| "Math_pow pw (Zero Minus) e =
     (if num_lt (Zero Plus) e
      then (if is_odd_integer e then Zero Minus else Zero Plus)
      else (if is_odd_integer e then Inf Minus else Inf Plus))"
| "Math_pow pw (Fin b) (Inf Plus) =
     (if 1 < \<bar>b\<bar> then Inf Plus else if \<bar>b\<bar> = 1 then NaN else Zero Plus)"
| "Math_pow pw (Fin b) (Inf Minus) =
     (if 1 < \<bar>b\<bar> then Zero Plus else if \<bar>b\<bar> = 1 then NaN else Inf Plus)"
| "Math_pow pw (Fin b) (Fin e) = (if b < 0 \<and> \<not> is_integral e then NaN else pw b e)"

text \<open>One host approximation: the correctly rounded power.\<close>

definition pow_cr :: "real \<Rightarrow> real \<Rightarrow> number" where
  "pow_cr b e = round64 (if is_integral e then b powi \<lfloor>e\<rfloor> else b powr e)"

subsection \<open>Number.prototype.toFixed\<close>

datatype exn = RangeError

definition digit_char :: "nat \<Rightarrow> char" where
  "digit_char n = ''0123456789'' ! (n mod 10)"

fun decimal :: "nat \<Rightarrow> string" where
  "decimal n = (if n < 10 then [digit_char n] else decimal (n div 10) @ [digit_char (n mod 10)])"

declare decimal.simps [simp del]

text \<open>
  The shortest decimal that reads back as the value, for a finite value of
  \<open>10 ^ 21\<close> or more: the least number \<open>k\<close> of digits, digits \<open>s\<close> and exponent \<open>n\<close>
  with \<open>s * 10 ^ (n - k)\<close> rounding to \<open>x\<close>; of two candidates the nearer one, the
  even one when they are equally near. \<open>n0\<close> is the number of digits of the
  integer part of \<open>x\<close>; the digits below and above \<open>x\<close> are the two candidates, and
  the one above may be the next power of ten.
\<close>

function shortest :: "real \<Rightarrow> nat \<Rightarrow> nat \<Rightarrow> nat \<times> nat" where
  "shortest x n0 k =
     (let p = 10 ^ (n0 - k);
          lo = nat \<lfloor>x / p\<rfloor>;
          hi = lo + 1;
          oklo = (round64 (real lo * p) = Fin x);
          okhi = (round64 (real hi * p) = Fin x);
          up = (if hi = 10 ^ k then (10 ^ (k - 1), n0 + 1) else (hi, n0))
      in if oklo \<and> (\<not> okhi \<or> x - real lo * p < real hi * p - x
                  \<or> x - real lo * p = real hi * p - x \<and> even lo) then (lo, n0)
         else if okhi then up
         else if 21 \<le> k then (lo, n0)
         else shortest x n0 (k + 1))"
  by pat_completeness auto
termination
  by (relation "measure (\<lambda>(x, n0, k). 21 - k)") auto

declare shortest.simps [simp del]

definition toString_large :: "real \<Rightarrow> string" where
  "toString_large x =
     (let (s, n) = shortest x (length (decimal (nat \<lfloor>x\<rfloor>))) 1;
          ds = decimal s
      in (if length ds = 1 then ds else take 1 ds @ ''.'' @ drop 1 ds)
         @ ''e+'' @ decimal (n - 1))"

text \<open>
  The digits of \<open>x \<ge> 0\<close> with \<open>f\<close> fraction digits: \<open>n\<close> is the integer nearest to
  \<open>x * 10 ^ f\<close>, the larger one at a tie; its decimal digits are padded with
  zeros to \<open>f + 1\<close> and split before the last \<open>f\<close>.
\<close>

definition fixed_digits :: "nat \<Rightarrow> real \<Rightarrow> string" where
  "fixed_digits f x =
     (let n = nat \<lfloor>x * 10 ^ f + 1 / 2\<rfloor>;
          m = decimal n
      in if f = 0 then m
         else let m' = (if length m \<le> f then replicate (f + 1 - length m) CHR ''0'' @ m else m);
                  k = length m'
              in take (k - f) m' @ ''.'' @ drop (k - f) m')"

definition toFixed :: "int \<Rightarrow> number \<Rightarrow> exn + string" where
  "toFixed fractionDigits x =
     (if fractionDigits < 0 \<or> 100 < fractionDigits then Inl RangeError
      else case x of
        NaN \<Rightarrow> Inr ''NaN''
      | Inf Plus \<Rightarrow> Inr ''Infinity''
      | Inf Minus \<Rightarrow> Inr ''-Infinity''
      | Zero _ \<Rightarrow> Inr (fixed_digits (nat fractionDigits) 0)
      | Fin v \<Rightarrow>
          Inr ((if v < 0 then ''-'' else [])
               @ (if 10 ^ 21 \<le> \<bar>v\<bar> then toString_large \<bar>v\<bar>
                  else fixed_digits (nat fractionDigits) \<bar>v\<bar>)))"

section \<open>The program\<close>

subsection \<open>types.ts\<close>

record VCMState =
  ricaviY5 :: number
  ricaviUnita :: number
  multiplo :: number
  discountRate :: number
  anni :: number
  investimento :: number
  investUnita :: number
  settore :: string

record VCMResults =
  exitValue :: number
  valuationToday :: number
  preMoneyVal :: number
  vcOwnership :: number
  roiAtteso :: number
  profitto :: number
  powerFactor :: number

record SensitivityData =
  dr :: string
  valuation :: number

text \<open>The enum \<^verbatim>\<open>CurrencyUnit\<close>.\<close>

definition MILLIONS :: number where "MILLIONS = Fin 1000000"
definition THOUSANDS :: number where "THOUSANDS = Fin 1000"
definition ONES :: number where "ONES = Fin 1"

subsection \<open>App.tsx: the derived calculations\<close>

text \<open>The initial value of the input state.\<close>

definition initialState :: VCMState where
  "initialState =
     \<lparr>ricaviY5 = Fin 50, ricaviUnita = MILLIONS, multiplo = Fin 6, discountRate = Fin 45,
      anni = Fin 5, investimento = Fin 10, investUnita = MILLIONS, settore = ''SaaS''\<rparr>"

text \<open>
  The spec's \<open>computeResults\<close>: the body of the memoised \<^verbatim>\<open>results\<close>. The local
  \<^verbatim>\<open>dr\<close> of the source is \<open>r\<close> here, \<open>dr\<close> being the label field of a sensitivity
  point.
\<close>

definition results :: "(real \<Rightarrow> real \<Rightarrow> number) \<Rightarrow> VCMState \<Rightarrow> VCMResults" where
  "results pw state =
     (let ricaviTotal = num_mul (ricaviY5 state) (ricaviUnita state);
          investTotal = num_mul (investimento state) (investUnita state);
          r = num_div (discountRate state) (Fin 100);
          exitValue = num_mul ricaviTotal (multiplo state);
          powerFactor = Math_pow pw (num_add (Fin 1) r) (anni state);
          valuationToday = num_div exitValue powerFactor;
          preMoneyVal = num_sub valuationToday investTotal;
          vcOwnership = num_div investTotal valuationToday;
          roiAtteso = num_div (num_mul exitValue vcOwnership) investTotal;
          profitto = num_sub (num_mul exitValue vcOwnership) investTotal
      in \<lparr>exitValue = exitValue, valuationToday = valuationToday,
          preMoneyVal = preMoneyVal, vcOwnership = vcOwnership,
          roiAtteso = roiAtteso, profitto = profitto, powerFactor = powerFactor\<rparr>)"

text \<open>The literals \<^verbatim>\<open>[0.2, 0.3, 0.4, 0.5, 0.6, 0.7]\<close>, each the nearest binary64 value.\<close>

definition drRates :: "number list" where
  "drRates = map round64 [2 / 10, 3 / 10, 4 / 10, 5 / 10, 6 / 10, 7 / 10]"

fun map_exn :: "('a \<Rightarrow> exn + 'b) \<Rightarrow> 'a list \<Rightarrow> exn + 'b list" where
  "map_exn f [] = Inr []"
| "map_exn f (x # xs) =
     (case f x of
        Inl e \<Rightarrow> Inl e
      | Inr y \<Rightarrow> (case map_exn f xs of Inl e \<Rightarrow> Inl e | Inr ys \<Rightarrow> Inr (y # ys)))"

text \<open>One point of the sweep, for the exit value \<open>ev\<close> and the grid rate \<open>r\<close>.\<close>

definition sensitivityPoint ::
  "(real \<Rightarrow> real \<Rightarrow> number) \<Rightarrow> VCMState \<Rightarrow> number \<Rightarrow> number \<Rightarrow> exn + SensitivityData" where
  "sensitivityPoint pw state ev r =
     (case toFixed 0 (num_mul r (Fin 100)) of
        Inl e \<Rightarrow> Inl e
      | Inr t \<Rightarrow>
          Inr \<lparr>dr = t @ ''%'',
               valuation =
                 num_div (num_div ev (Math_pow pw (num_add (Fin 1) r) (anni state)))
                   (Fin 1000000)\<rparr>)"

text \<open>The spec's \<open>computeSensitivity\<close>: the body of the memoised \<^verbatim>\<open>sensitivityData\<close>.\<close>

definition sensitivityData ::
  "(real \<Rightarrow> real \<Rightarrow> number) \<Rightarrow> VCMState \<Rightarrow> exn + SensitivityData list" where
  "sensitivityData pw state =
     (let ricaviTotal = num_mul (ricaviY5 state) (ricaviUnita state);
          exitValue = num_mul ricaviTotal (multiplo state)
      in map_exn (sensitivityPoint pw state exitValue) drRates)"

text \<open>
  The sweep as the spec words it: for a grid rate \<open>r\<close>, the exit value over
  \<open>(1 + r)\<close> to the power of the years, in millions.
\<close>

definition valuationInMillions ::
  "(real \<Rightarrow> real \<Rightarrow> number) \<Rightarrow> VCMState \<Rightarrow> number \<Rightarrow> number" where
  "valuationInMillions pw s r =
     num_div
       (num_div (num_mul (num_mul (ricaviY5 s) (ricaviUnita s)) (multiplo s))
          (Math_pow pw (num_add (Fin 1) r) (anni s)))
       (Fin 1000000)"

text \<open>The euro sign of the template literals, as its three UTF-8 bytes.\<close>

definition euro :: string where
  "euro = [char_of (226 :: nat), char_of (130 :: nat), char_of (172 :: nat)]"

definition formatCurrency :: "number \<Rightarrow> exn + string" where
  "formatCurrency value =
     (let absValue = Math_abs value
      in if num_ge absValue (Fin 1000000)
         then (case toFixed 1 (num_div value (Fin 1000000)) of
                 Inl e \<Rightarrow> Inl e | Inr t \<Rightarrow> Inr (euro @ t @ ''M''))
         else if num_ge absValue (Fin 1000)
         then (case toFixed 1 (num_div value (Fin 1000)) of
                 Inl e \<Rightarrow> Inl e | Inr t \<Rightarrow> Inr (euro @ t @ ''k''))
         else (case toFixed 0 value of
                 Inl e \<Rightarrow> Inl e | Inr t \<Rightarrow> Inr (euro @ t)))"

subsection \<open>App.tsx: the component and what it keeps between renders\<close>

text \<open>
  The two calculations are closures inside the component \<^verbatim>\<open>App\<close>, each handed
  to \<^verbatim>\<open>useMemo\<close> with the dependency \<^verbatim>\<open>[state]\<close>. Between renders React keeps
  the values of the hooks of the component: the theme flag \<^verbatim>\<open>darkMode\<close>, the input
  \<^verbatim>\<open>state\<close>, and one cell per \<^verbatim>\<open>useMemo\<close>, holding the dependency and the value
  of its last computation.
\<close>

record Hooks =
  darkMode :: bool
  state :: VCMState
  results_cell :: "(VCMState \<times> VCMResults) option"
  sensitivityData_cell :: "(VCMState \<times> SensitivityData list) option"





section \<open>The vocabulary of the claims\<close>

text \<open>A finite value above zero.\<close>

fun pos_finite :: "number \<Rightarrow> bool" where
  "pos_finite (Fin x) = (0 < x)"
| "pos_finite _ = False"

text \<open>A value that is not NaN and carries no minus sign: \<open>+0\<close>, above zero, or \<open>+\<infinity>\<close>.\<close>

fun nonneg_proper :: "number \<Rightarrow> bool" where
  "nonneg_proper NaN = False"
| "nonneg_proper (Inf s) = (s = Plus)"
| "nonneg_proper (Zero s) = (s = Plus)"
| "nonneg_proper (Fin x) = (0 < x)"

text \<open>
  What the monotonicity of the valuation asks of the host's power: on a positive
  base and a positive exponent it yields a value with no minus sign, and a
  larger base never yields a smaller power.
\<close>

definition mono_pow :: "(real \<Rightarrow> real \<Rightarrow> number) \<Rightarrow> bool" where
  "mono_pow pw = (\<forall>b b' e. 0 < b \<longrightarrow> b \<le> b' \<longrightarrow> 0 < e \<longrightarrow>
     nonneg_proper (pw b e) \<and> nonneg_proper (pw b' e) \<and> num_le (pw b e) (pw b' e))"

text \<open>A finite value in the normal range, where rounding is to 53 significant bits.\<close>

fun normal_finite :: "number \<Rightarrow> bool" where
  "normal_finite (Fin x) = (2 powi (- 1022) \<le> \<bar>x\<bar>)"
| "normal_finite _ = False"

text \<open>
  Two finite values above zero, the second larger by a relative \<open>2 powi (-50)\<close> or
  more: further apart than the roundings of two successive divisions can close.
\<close>

definition clearly_less :: "number \<Rightarrow> number \<Rightarrow> bool" where
  "clearly_less x y = (pos_finite x \<and> pos_finite y \<and> real_of x * (1 + 2 powi (- 50)) \<le> real_of y)"

text \<open>
  A value \<open>y\<close> of the host's power is close to the real power \<open>x\<close>: it is finite
  and within a relative \<open>2 powi (-51)\<close> of it, two units in the last place or
  more.
\<close>

definition close_to :: "number \<Rightarrow> real \<Rightarrow> bool" where
  "close_to y x = (case y of Fin p \<Rightarrow> \<bar>p - x\<bar> \<le> 2 powi (- 51) * \<bar>x\<bar> | _ \<Rightarrow> False)"

text \<open>
  What the strict monotonicity of the valuation asks of the host's power:
  wherever the real power of a base above zero lies in the normal range, the
  host's value is close to it.
\<close>

definition accurate_pow :: "(real \<Rightarrow> real \<Rightarrow> number) \<Rightarrow> bool" where
  "accurate_pow pw =
     (\<forall>b e. 0 < b \<longrightarrow> 2 powi (- 1022) \<le> b powr e \<longrightarrow> b powr e \<le> 2 powi 1023 \<longrightarrow>
        close_to (pw b e) (b powr e))"


text \<open>
  The renderings the spec of the currency format names: an amount with one
  decimal place (sign, integer digits, point, one digit; half a tenth rounds
  away from zero), and an amount as an integer with no decimal places.
\<close>

definition one_decimal :: "real \<Rightarrow> string" where
  "one_decimal x =
     (let n = nat \<lfloor>\<bar>x\<bar> * 10 + 1 / 2\<rfloor>
      in (if x < 0 then ''-'' else []) @ decimal (n div 10) @ ''.'' @ [digit_char (n mod 10)])"

definition no_decimals :: "real \<Rightarrow> string" where
  "no_decimals x = (if x < 0 then ''-'' else []) @ decimal (nat \<lfloor>\<bar>x\<bar> + 1 / 2\<rfloor>)"

section \<open>Properties of the arithmetic\<close>

subsection \<open>The binary logarithm\<close>

lemma bitlen_pos: "0 < n \<Longrightarrow> 0 < bitlen n"
proof (rule ccontr)
  assume n: "0 < n" and "\<not> 0 < bitlen n"
  then have "nat (bitlen n) = 0" by simp
  with bitlen_bounds[OF n] show False using n by simp
qed

lemma ilog2_bounds_ge1:
  assumes "1 \<le> x"
  shows "2 powi ilog2 x \<le> x" "x < 2 powi (ilog2 x + 1)"
proof -
  let ?n = "\<lfloor>x\<rfloor>"
  have n: "0 < ?n" using assms by simp
  have b: "0 < bitlen ?n" using n by (rule bitlen_pos)
  from bitlen_bounds[OF n] have lo: "2 ^ nat (bitlen ?n - 1) \<le> ?n" and hi: "?n < 2 ^ nat (bitlen ?n)"
    by auto
  have e: "ilog2 x = bitlen ?n - 1" using assms by (simp add: ilog2_def)
  have "(2::real) powi ilog2 x = 2 ^ nat (bitlen ?n - 1)"
    using b by (simp add: e power_int_def)
  also have "\<dots> = of_int (2 ^ nat (bitlen ?n - 1))" by simp
  also have "\<dots> \<le> of_int ?n" using lo by (simp only: of_int_le_iff)
  also have "\<dots> \<le> x" by simp
  finally show "2 powi ilog2 x \<le> x" .
  have "?n + 1 \<le> 2 ^ nat (bitlen ?n)" using hi by simp
  then have "real_of_int (?n + 1) \<le> of_int (2 ^ nat (bitlen ?n))" by (simp only: of_int_le_iff)
  then have A: "real_of_int (?n + 1) \<le> 2 ^ nat (bitlen ?n)" by (simp only: of_int_power of_int_numeral)
  have B: "x < real_of_int (?n + 1)" by linarith
  from B A have "x < 2 ^ nat (bitlen ?n)" by (rule less_le_trans)
  also have "\<dots> = 2 powi (ilog2 x + 1)" using b by (simp add: e power_int_def)
  finally show "x < 2 powi (ilog2 x + 1)" .
qed

lemma ilog2_bounds_lt1:
  assumes "0 < x" "x < 1"
  shows "2 powi ilog2 x \<le> x" "x < 2 powi (ilog2 x + 1)"
proof -
  let ?c = "\<lceil>1 / x\<rceil>"
  let ?k = "bitlen (?c - 1)"
  have inv: "1 < 1 / x" using assms by simp
  have c: "0 < ?c - 1" using inv by linarith
  have k: "0 < ?k" using c by (rule bitlen_pos)
  from bitlen_bounds[OF c] have lo: "2 ^ nat (?k - 1) \<le> ?c - 1" and hi: "?c - 1 < 2 ^ nat ?k"
    by auto
  have e: "ilog2 x = - ?k" using assms by (simp add: ilog2_def)
  have "?c \<le> 2 ^ nat ?k" using hi by simp
  then have "real_of_int ?c \<le> of_int (2 ^ nat ?k)" by (simp only: of_int_le_iff)
  then have "1 / x \<le> 2 ^ nat ?k" by (simp add: ceiling_le_iff)
  then have "1 \<le> 2 ^ nat ?k * x" using assms by (simp add: field_simps)
  then have "1 / 2 ^ nat ?k \<le> x" by (simp add: field_simps)
  moreover have "(2::real) powi ilog2 x = 1 / 2 ^ nat ?k"
    using k by (simp add: e power_int_def field_simps)
  ultimately show "2 powi ilog2 x \<le> x" by simp
  have "real_of_int (2 ^ nat (?k - 1)) \<le> of_int (?c - 1)" using lo by (simp only: of_int_le_iff)
  moreover have "real_of_int (?c - 1) < 1 / x" by linarith
  ultimately have "2 ^ nat (?k - 1) < 1 / x" by simp
  then have "2 ^ nat (?k - 1) * x < 1" using assms by (simp add: field_simps)
  then have "x < 1 / 2 ^ nat (?k - 1)" by (simp add: field_simps)
  moreover have "(2::real) powi (ilog2 x + 1) = 1 / 2 ^ nat (?k - 1)"
  proof (cases "?k = 1")
    case True then show ?thesis by (simp add: e)
  next
    case False
    then have "- ?k + 1 < 0" using k by simp
    moreover have "nat (?k - 1) = nat (- (- ?k + 1))" by simp
    ultimately show ?thesis unfolding e by (simp add: power_int_def field_simps)
  qed
  ultimately show "x < 2 powi (ilog2 x + 1)" by simp
qed

lemma ilog2_bounds:
  assumes "0 < x"
  shows "2 powi ilog2 x \<le> x" "x < 2 powi (ilog2 x + 1)"
  using assms ilog2_bounds_ge1[of x] ilog2_bounds_lt1[of x] by (cases "1 \<le> x"; simp)+

lemma powi2_mono: "a \<le> b \<Longrightarrow> (2::real) powi a \<le> 2 powi b"
  by (rule power_int_increasing) simp_all

lemma powi2_less_imp: "(2::real) powi a < 2 powi b \<Longrightarrow> a < b"
  using powi2_mono[of b a] by (cases "a < b") auto

lemma ilog2_unique:
  assumes "2 powi e \<le> x" "x < 2 powi (e + 1)"
  shows "ilog2 x = e"
proof -
  have x: "0 < x" using assms(1) by (smt (verit) zero_less_power_int)
  note b = ilog2_bounds[OF x]
  have "(2::real) powi e < 2 powi (ilog2 x + 1)" using assms(1) b(2) by linarith
  then have 1: "e < ilog2 x + 1" by (rule powi2_less_imp)
  have "(2::real) powi ilog2 x < 2 powi (e + 1)" using assms(2) b(1) by linarith
  then have 2: "ilog2 x < e + 1" by (rule powi2_less_imp)
  from 1 2 show ?thesis by simp
qed

subsection \<open>rhe\<close>

lemma rhe_of_int: "rhe (of_int n) = n"
  by (simp add: rhe_def)

lemma rhe_near: "\<bar>of_int (rhe x) - x\<bar> \<le> 1 / 2"
  unfolding rhe_def Let_def by (auto; linarith)

lemma rhe_ge_floor: "\<lfloor>x\<rfloor> \<le> rhe x"
  by (simp add: rhe_def Let_def)

lemma rhe_le_floor1: "rhe x \<le> \<lfloor>x\<rfloor> + 1"
  by (simp add: rhe_def Let_def)

lemma rhe_mono:
  assumes "x \<le> y"
  shows "rhe x \<le> rhe y"
proof (cases "\<lfloor>x\<rfloor> = \<lfloor>y\<rfloor>")
  case True
  with assms show ?thesis by (auto simp: rhe_def Let_def)
next
  case False
  with assms have "\<lfloor>x\<rfloor> + 1 \<le> \<lfloor>y\<rfloor>" using floor_mono[OF assms] by linarith
  with rhe_le_floor1[of x] rhe_ge_floor[of y] show ?thesis by linarith
qed

lemma rhe_le_int: "x \<le> of_int n \<Longrightarrow> rhe x \<le> n"
  using rhe_mono[of x "of_int n"] by (simp add: rhe_of_int)

lemma rhe_ge_int: "of_int n \<le> x \<Longrightarrow> n \<le> rhe x"
  using rhe_mono[of "of_int n" x] by (simp add: rhe_of_int)

subsection \<open>Powers of two\<close>

lemma powi2_pos: "0 < (2::real) powi q"
  by simp

lemma powi2_add: "(2::real) powi (a + b) = 2 powi a * 2 powi b"
  by (simp add: power_int_add)

lemma powi2_cancel: "(2::real) powi q * 2 powi (- q) = 1"
  by (simp add: power_int_minus)

lemma powi2_nat: "(2::real) powi (int n) = 2 ^ n"
  by simp

lemma scale_le_iff: "a * 2 powi (- q) \<le> c \<longleftrightarrow> a \<le> c * (2::real) powi q"
  by (simp add: power_int_minus field_simps)

lemma scale_less_iff: "a * 2 powi (- q) < c \<longleftrightarrow> a < c * (2::real) powi q"
  by (simp add: power_int_minus field_simps)

lemma scale_ge_iff: "c \<le> a * 2 powi (- q) \<longleftrightarrow> c * (2::real) powi q \<le> a"
  by (simp add: power_int_minus field_simps)

subsection \<open>The exponent of the last place\<close>

lemma ilog2_mono:
  assumes "0 < x" "x \<le> y"
  shows "ilog2 x \<le> ilog2 y"
proof -
  have y: "0 < y" using assms by simp
  have "(2::real) powi ilog2 x < 2 powi (ilog2 y + 1)"
    using ilog2_bounds(1)[OF assms(1)] ilog2_bounds(2)[OF y] assms(2) by linarith
  then have "ilog2 x < ilog2 y + 1" by (rule powi2_less_imp)
  then show ?thesis by simp
qed

lemma ulp_exp_ge: "- 1074 \<le> ulp_exp a"
  by (simp add: ulp_exp_def)

lemma ulp_exp_mono: "0 < x \<Longrightarrow> x \<le> y \<Longrightarrow> ulp_exp x \<le> ulp_exp y"
  using ilog2_mono[of x y] by (simp add: ulp_exp_def)

lemma ulp_exp_normal: "- 1022 \<le> ilog2 a \<Longrightarrow> ulp_exp a = ilog2 a - 52"
  by (simp add: ulp_exp_def)

lemma ulp_exp_subnormal: "ilog2 a \<le> - 1022 \<Longrightarrow> ulp_exp a = - 1074"
  by (simp add: ulp_exp_def)

lemma scaled_less:
  assumes "0 < a"
  shows "a * 2 powi (- ulp_exp a) < 2 ^ 53"
proof -
  have "ilog2 a + 1 \<le> ulp_exp a + 53" by (simp add: ulp_exp_def)
  then have "(2::real) powi (ilog2 a + 1) \<le> 2 powi (ulp_exp a + 53)" by (rule powi2_mono)
  with ilog2_bounds(2)[OF assms] have "a < 2 powi (ulp_exp a + 53)" by linarith
  also have "\<dots> = 2 ^ 53 * 2 powi ulp_exp a" by (simp add: powi2_add)
  finally show ?thesis by (simp add: scale_less_iff)
qed

lemma scaled_ge:
  assumes "0 < a" "- 1022 \<le> ilog2 a"
  shows "2 ^ 52 \<le> a * 2 powi (- ulp_exp a)"
proof -
  have "(2::real) ^ 52 * 2 powi ulp_exp a = 2 powi (52 + ulp_exp a)"
    by (simp add: powi2_add)
  also have "\<dots> = 2 powi ilog2 a" using assms(2) by (simp add: ulp_exp_normal)
  also have "\<dots> \<le> a" by (rule ilog2_bounds(1)[OF assms(1)])
  finally show ?thesis by (simp add: scale_ge_iff)
qed

subsection \<open>nearest\<close>

lemma nearest_nonneg: "0 < a \<Longrightarrow> 0 \<le> nearest a"
proof -
  assume a: "0 < a"
  have "0 \<le> a * 2 powi (- ulp_exp a)" using a by simp
  then have "of_int 0 \<le> a * 2 powi (- ulp_exp a)" by simp
  then have "0 \<le> rhe (a * 2 powi (- ulp_exp a))" by (rule rhe_ge_int)
  then show ?thesis by (simp add: nearest_def)
qed

lemma nearest_le:
  assumes "0 < a"
  shows "nearest a \<le> 2 powi (ulp_exp a + 53)"
proof -
  have "a * 2 powi (- ulp_exp a) \<le> of_int (2 ^ 53)" using scaled_less[OF assms] by simp
  then have "rhe (a * 2 powi (- ulp_exp a)) \<le> 2 ^ 53" by (rule rhe_le_int)
  then have "real_of_int (rhe (a * 2 powi (- ulp_exp a))) \<le> 2 ^ 53"
    using of_int_le_iff[where 'a = real, of "rhe (a * 2 powi (- ulp_exp a))" "2 ^ 53"] by simp
  then have "nearest a \<le> 2 ^ 53 * 2 powi ulp_exp a"
    unfolding nearest_def by (intro mult_right_mono) simp_all
  then show ?thesis by (simp add: powi2_add mult.commute)
qed

lemma nearest_ge:
  assumes "0 < a" "- 1022 \<le> ilog2 a"
  shows "2 powi (ulp_exp a + 52) \<le> nearest a"
proof -
  have "of_int (2 ^ 52) \<le> a * 2 powi (- ulp_exp a)" using scaled_ge[OF assms] by simp
  then have "2 ^ 52 \<le> rhe (a * 2 powi (- ulp_exp a))" by (rule rhe_ge_int)
  then have "(2::real) ^ 52 \<le> real_of_int (rhe (a * 2 powi (- ulp_exp a)))"
    using of_int_le_iff[where 'a = real, of "2 ^ 52" "rhe (a * 2 powi (- ulp_exp a))"] by simp
  then have "2 ^ 52 * 2 powi ulp_exp a \<le> nearest a"
    unfolding nearest_def by (intro mult_right_mono) simp_all
  then show ?thesis by (simp add: powi2_add mult.commute)
qed

lemma nearest_mono:
  assumes "0 < x" "x \<le> y"
  shows "nearest x \<le> nearest y"
proof (cases "ulp_exp x = ulp_exp y")
  case True
  have "x * 2 powi (- ulp_exp y) \<le> y * 2 powi (- ulp_exp y)"
    using assms(2) by (intro mult_right_mono) simp_all
  then have "rhe (x * 2 powi (- ulp_exp y)) \<le> rhe (y * 2 powi (- ulp_exp y))" by (rule rhe_mono)
  then have "real_of_int (rhe (x * 2 powi (- ulp_exp y))) \<le> of_int (rhe (y * 2 powi (- ulp_exp y)))"
    by (simp only: of_int_le_iff)
  then show ?thesis unfolding nearest_def True by (intro mult_right_mono) simp_all
next
  case False
  have y: "0 < y" using assms by simp
  from False ulp_exp_mono[OF assms] have lt: "ulp_exp x < ulp_exp y" by simp
  with ulp_exp_ge[of x] have "- 1022 \<le> ilog2 y" unfolding ulp_exp_def by linarith
  from nearest_ge[OF y this] have "2 powi (ulp_exp y + 52) \<le> nearest y" .
  moreover have "(2::real) powi (ulp_exp x + 53) \<le> 2 powi (ulp_exp y + 52)"
    using lt by (intro powi2_mono) simp
  ultimately show ?thesis using nearest_le[OF assms(1)] by linarith
qed

lemma nearest_fix:
  assumes "r * 2 powi (- ulp_exp r) = of_int k"
  shows "nearest r = r"
proof -
  have "nearest r = of_int k * 2 powi ulp_exp r"
    unfolding nearest_def assms by (simp add: rhe_of_int)
  also have "\<dots> = r * (2 powi (- ulp_exp r) * 2 powi ulp_exp r)"
    by (simp add: assms[symmetric] mult.assoc)
  also have "\<dots> = r" using powi2_cancel[of "ulp_exp r"] by (simp add: mult.commute)
  finally show ?thesis .
qed

lemma nearest_grid:
  assumes m: "0 < m" "m \<le> 2 ^ 53" and q: "q = - 1074 \<or> (- 1074 \<le> q \<and> 2 ^ 52 \<le> m)"
  shows "nearest (of_int m * 2 powi q) = of_int m * 2 powi q"
proof -
  let ?r = "real_of_int m * 2 powi q"
  have r: "0 < ?r" using m by simp
  have mr: "real_of_int m \<le> 2 ^ 53"
    using of_int_le_iff[where 'a = real, of m "2 ^ 53"] m by simp
  consider (top) "m = 2 ^ 53" | (normal) "2 ^ 52 \<le> m" "m < 2 ^ 53" "- 1074 \<le> q"
    | (sub) "m < 2 ^ 52" "q = - 1074"
    using m q by linarith
  then show ?thesis
  proof cases
    case top
    have eq: "?r = 2 powi (q + 53)" by (simp add: top powi2_add mult.commute)
    have "ilog2 ?r = q + 53"
      by (rule ilog2_unique) (simp_all add: eq powi2_add)
    moreover have "- 1074 \<le> q" using q by auto
    ultimately have u: "ulp_exp ?r = q + 1" by (simp add: ulp_exp_def)
    have "?r * 2 powi (- ulp_exp ?r) = ?r * 2 powi (- (q + 1))"
      by (simp only: u)
    also have "\<dots> = 2 powi (q + 53) * 2 powi (- (q + 1))"
      by (simp only: eq)
    also have "\<dots> = 2 powi (q + 53 + (- (q + 1)))" by (simp only: powi2_add)
    also have "\<dots> = of_int (2 ^ 52)" by simp
    finally show ?thesis by (rule nearest_fix)
  next
    case normal
    have lo: "(2::real) ^ 52 \<le> real_of_int m"
      using of_int_le_iff[where 'a = real, of "2 ^ 52" m] normal by simp
    have hi: "real_of_int m < 2 ^ 53"
      using of_int_less_iff[where 'a = real, of m "2 ^ 53"] normal by simp
    have "ilog2 ?r = q + 52"
    proof (rule ilog2_unique)
      have "2 powi (q + 52) = 2 ^ 52 * (2::real) powi q" by (simp add: powi2_add)
      also have "\<dots> \<le> ?r" using lo by (intro mult_right_mono) simp_all
      finally show "2 powi (q + 52) \<le> ?r" .
      have "?r < 2 ^ 53 * 2 powi q" using hi by (intro mult_strict_right_mono) simp_all
      also have "\<dots> = 2 powi (q + 52 + 1)" by (simp add: powi2_add)
      finally show "?r < 2 powi (q + 52 + 1)" .
    qed
    then have u: "ulp_exp ?r = q" using normal by (simp add: ulp_exp_def)
    have "?r * 2 powi (- ulp_exp ?r) = of_int m * (2 powi q * 2 powi (- q))"
      by (simp only: u mult.assoc)
    also have "\<dots> = of_int m" by (simp only: powi2_cancel mult_1_right)
    finally show ?thesis by (rule nearest_fix)
  next
    case sub
    have hi: "real_of_int m < 2 ^ 52"
      using of_int_less_iff[where 'a = real, of m "2 ^ 52"] sub by simp
    have "?r < 2 ^ 52 * 2 powi q" using hi by (intro mult_strict_right_mono) simp_all
    also have "\<dots> = 2 powi (- 1022)" by (simp add: sub powi2_add[symmetric])
    finally have "?r < 2 powi (- 1022)" .
    with ilog2_bounds(1)[OF r] have "(2::real) powi ilog2 ?r < 2 powi (- 1022)" by linarith
    then have "ilog2 ?r < - 1022" by (rule powi2_less_imp)
    then have u: "ulp_exp ?r = q" by (simp add: ulp_exp_def sub)
    have "?r * 2 powi (- ulp_exp ?r) = of_int m * (2 powi q * 2 powi (- q))"
      by (simp only: u mult.assoc)
    also have "\<dots> = of_int m" by (simp only: powi2_cancel mult_1_right)
    finally show ?thesis by (rule nearest_fix)
  qed
qed

lemma nearest_idem:
  assumes "0 < a" "0 < nearest a"
  shows "nearest (nearest a) = nearest a"
proof -
  let ?m = "rhe (a * 2 powi (- ulp_exp a))"
  have pos: "0 < ?m"
  proof (rule ccontr)
    assume "\<not> 0 < ?m"
    then have "real_of_int ?m \<le> 0" by simp
    then have "nearest a \<le> 0" unfolding nearest_def by (simp add: mult_le_0_iff)
    with assms(2) show False by simp
  qed
  have "a * 2 powi (- ulp_exp a) \<le> of_int (2 ^ 53)" using scaled_less[OF assms(1)] by simp
  then have le: "?m \<le> 2 ^ 53" by (rule rhe_le_int)
  have "ulp_exp a = - 1074 \<or> (- 1074 \<le> ulp_exp a \<and> 2 ^ 52 \<le> ?m)"
  proof (cases "- 1022 \<le> ilog2 a")
    case True
    have "of_int (2 ^ 52) \<le> a * 2 powi (- ulp_exp a)" using scaled_ge[OF assms(1) True] by simp
    then have "2 ^ 52 \<le> ?m" by (rule rhe_ge_int)
    then show ?thesis using ulp_exp_ge[of a] by simp
  next
    case False
    then show ?thesis by (simp add: ulp_exp_def)
  qed
  from nearest_grid[OF pos le this] show ?thesis by (simp add: nearest_def)
qed

subsection \<open>round64\<close>

lemma round64_pos:
  "0 < x \<Longrightarrow> round64 x =
     (if huge \<le> nearest x then Inf Plus
      else if nearest x = 0 then Zero Plus else Fin (nearest x))"
  by (simp add: round64_def Let_def sign_of_real_def)

lemma round64_neg:
  "x < 0 \<Longrightarrow> round64 x =
     (if huge \<le> nearest (- x) then Inf Minus
      else if nearest (- x) = 0 then Zero Minus else Fin (- nearest (- x)))"
  by (simp add: round64_def Let_def sign_of_real_def)

lemma round64_minus: "x \<noteq> 0 \<Longrightarrow> round64 (- x) = neg (round64 x)"
  by (cases "0 < x") (simp_all add: round64_pos round64_neg)

lemma round64_not_NaN: "\<not> is_NaN (round64 x)"
  by (simp add: round64_def Let_def)

lemma round64_eval:
  fixes x :: real
  assumes "2 powi e \<le> x" "x < 2 powi (e + 1)" "- 1022 \<le> e"
    and "rhe (x * 2 powi (52 - e)) = m"
    and "real_of_int m * 2 powi (e - 52) < 2 ^ 1024"
  shows "round64 x = Fin (real_of_int m * 2 powi (e - 52))"
proof -
  have x: "0 < x" using assms(1) powi2_pos[of e] by linarith
  have e: "ilog2 x = e" using assms(1,2) by (rule ilog2_unique)
  then have u: "ulp_exp x = e - 52" using assms(3) by (simp add: ulp_exp_def)
  have n: "nearest x = of_int m * 2 powi (e - 52)"
    using assms(4) by (simp add: nearest_def u)
  have "2 powi (ulp_exp x + 52) \<le> nearest x"
    using x assms(3) e by (intro nearest_ge) simp_all
  then have "0 < nearest x" using powi2_pos[of "ulp_exp x + 52"] by linarith
  then have nz: "nearest x \<noteq> 0" by linarith
  have "nearest x < huge" using assms(5) by (simp only: n huge_def)
  then have "\<not> huge \<le> nearest x" by linarith
  with nz show ?thesis unfolding round64_pos[OF x] by (simp only: n if_False)
qed

lemma round64_Fin_pos: "0 < x \<Longrightarrow> round64 x = Fin y \<Longrightarrow> y = nearest x \<and> 0 < y \<and> y < huge"
  using nearest_nonneg[of x] by (auto simp: round64_pos split: if_splits)

lemma round64_Fin_neg:
  "x < 0 \<Longrightarrow> round64 x = Fin y \<Longrightarrow> y = - nearest (- x) \<and> y < 0 \<and> - huge < y"
  using nearest_nonneg[of "- x"] by (auto simp: round64_neg split: if_splits)

lemma round64_idem:
  assumes "round64 x = Fin y"
  shows "round64 y = Fin y"
proof -
  have x0: "x \<noteq> 0" using assms by (auto simp: round64_def)
  show ?thesis
  proof (cases "0 < x")
    case True
    from round64_Fin_pos[OF True assms] have y: "y = nearest x" "0 < y" "y < huge" by auto
    have "nearest y = y" using nearest_idem[OF True] y by simp
    then show ?thesis using y by (simp add: round64_pos)
  next
    case False
    then have neg: "x < 0" using x0 by simp
    from round64_Fin_neg[OF neg assms]
    have y: "y = - nearest (- x)" "y < 0" "- huge < y" by auto
    have "nearest (nearest (- x)) = nearest (- x)"
      using nearest_idem[of "- x"] neg y by simp
    then have "nearest (- y) = - y" using y by simp
    then show ?thesis using y by (simp add: round64_neg)
  qed
qed

subsection \<open>Order and sign of rounded values\<close>

lemma round64_rank_pos:
  "0 < x \<Longrightarrow> rank (round64 x) = (if huge \<le> nearest x then 1 else 0)"
  by (simp add: round64_pos)

lemma round64_real_pos:
  "0 < x \<Longrightarrow> real_of (round64 x) = (if huge \<le> nearest x then 0 else nearest x)"
  by (simp add: round64_pos)

lemma round64_rank_neg:
  "x < 0 \<Longrightarrow> rank (round64 x) = (if huge \<le> nearest (- x) then - 1 else 0)"
  by (simp add: round64_neg)

lemma round64_real_neg:
  "x < 0 \<Longrightarrow> real_of (round64 x) = (if huge \<le> nearest (- x) then 0 else - nearest (- x))"
  by (simp add: round64_neg)

lemma huge_pos: "0 < huge"
  by (simp add: huge_def)

lemma round64_mono:
  assumes "x \<le> y"
  shows "num_le (round64 x) (round64 y)"
proof -
  consider (pp) "0 < x" | (nn) "y < 0" | (zz) "x = 0" "y = 0" | (zp) "x = 0" "0 < y"
    | (nz) "x < 0" "y = 0" | (np) "x < 0" "0 < y"
    using assms by linarith
  then show ?thesis
  proof cases
    case pp
    then have y: "0 < y" using assms by simp
    from nearest_mono[OF pp assms] show ?thesis
      using nearest_nonneg[OF pp] huge_pos
      by (simp add: num_le_def round64_not_NaN round64_rank_pos round64_real_pos pp y)
  next
    case nn
    then have x: "x < 0" using assms by simp
    have "nearest (- y) \<le> nearest (- x)" using nn assms by (intro nearest_mono) simp_all
    then show ?thesis
      using nearest_nonneg[of "- y"] nn huge_pos
      by (simp add: num_le_def round64_not_NaN round64_rank_neg round64_real_neg nn x)
  next
    case zz
    then show ?thesis by (simp add: round64_def num_le_def)
  next
    case zp
    then show ?thesis
      using nearest_nonneg[of y]
      by (simp add: num_le_def round64_not_NaN round64_rank_pos round64_real_pos)
        (simp add: round64_def)
  next
    case nz
    then show ?thesis
      using nearest_nonneg[of "- x"]
      by (simp add: num_le_def round64_not_NaN round64_rank_neg round64_real_neg)
        (simp add: round64_def)
  next
    case np
    then show ?thesis
      using nearest_nonneg[of "- x"] nearest_nonneg[of y]
      by (simp add: num_le_def round64_not_NaN round64_rank_neg round64_real_neg
          round64_rank_pos round64_real_pos)
  qed
qed

lemma round64_Fin_nonzero: "round64 x = Fin y \<Longrightarrow> y \<noteq> 0"
  by (auto simp: round64_def Let_def split: if_splits)

lemma round64_pos_cases:
  assumes "0 < x"
  shows "round64 x = Inf Plus \<or> round64 x = Zero Plus \<or> (\<exists>y. 0 < y \<and> round64 x = Fin y)"
  using nearest_nonneg[OF assms] by (auto simp: round64_pos[OF assms])

lemma round64_nonneg_proper: "0 < x \<Longrightarrow> nonneg_proper (round64 x)"
  using round64_pos_cases[of x] by auto

lemma round64_neg_cases:
  assumes "x < 0"
  shows "round64 x = Inf Minus \<or> round64 x = Zero Minus \<or> (\<exists>y. y < 0 \<and> round64 x = Fin y)"
  using nearest_nonneg[of "- x"] assms by (auto simp: round64_neg[OF assms])

lemma round64_eval_neg:
  fixes x :: real
  assumes "2 powi e \<le> - x" "- x < 2 powi (e + 1)" "- 1022 \<le> e"
    and "rhe (- x * 2 powi (52 - e)) = m"
    and "real_of_int m * 2 powi (e - 52) < 2 ^ 1024"
  shows "round64 x = Fin (- (real_of_int m * 2 powi (e - 52)))"
proof -
  have "round64 (- x) = Fin (real_of_int m * 2 powi (e - 52))"
    using assms by (rule round64_eval)
  moreover have "x \<noteq> 0" using assms(1) powi2_pos[of e] by linarith
  ultimately show ?thesis using round64_minus[of "- x"] by simp
qed

lemma round64_zero: "round64 0 = Zero Plus"
  by (simp add: round64_def)

lemma round64_one: "round64 1 = Fin 1"
  using round64_eval[of 0 1 4503599627370496] by (simp add: rhe_def Let_def)

lemma round64_minus_one: "round64 (- 1) = Fin (- 1)"
  using round64_minus[of 1] by (simp add: round64_one)

lemma nearest_huge: "nearest huge = huge"
proof -
  have "nearest (real_of_int (2 ^ 53) * 2 powi 971) = real_of_int (2 ^ 53) * 2 powi 971"
    by (rule nearest_grid) simp_all
  moreover have "real_of_int (2 ^ 53) * 2 powi 971 = huge"
    by (simp add: huge_def)
  ultimately show ?thesis by simp
qed

lemma round64_overflow:
  assumes "huge \<le> x"
  shows "round64 x = Inf Plus"
proof -
  have x: "0 < x" using assms huge_pos by linarith
  have "nearest huge \<le> nearest x" using huge_pos assms by (rule nearest_mono)
  then show ?thesis by (simp add: round64_pos[OF x] nearest_huge)
qed

lemma round64_underflow:
  assumes "0 < x" "x \<le> 2 powi (- 1075)"
  shows "round64 x = Zero Plus"
proof -
  let ?h = "(2::real) powi (- 1075)"
  have h: "0 < ?h" by (rule powi2_pos)
  have "ilog2 ?h = - 1075" by (rule ilog2_unique) simp_all
  then have "ulp_exp ?h = - 1074" by (simp add: ulp_exp_def)
  moreover have "?h * 2 powi 1074 = 1 / 2" by simp
  ultimately have "nearest ?h = 0" by (simp add: nearest_def rhe_def)
  moreover have "nearest x \<le> nearest ?h" using assms by (rule nearest_mono)
  moreover have "0 \<le> nearest x" using assms(1) by (rule nearest_nonneg)
  ultimately have "nearest x = 0" by linarith
  then show ?thesis using assms(1) huge_pos by (simp add: round64_pos)
qed

subsection \<open>Order of numbers\<close>

lemma sign_mul_Plus [simp]: "sign_mul s Plus = s"
  by (cases s) simp_all

lemma rank_Inf: "rank (Inf s) = (if s = Plus then 1 else - 1)"
  by (cases s) simp_all

lemma num_le_Inf_Plus: "\<not> is_NaN x \<Longrightarrow> num_le x (Inf Plus)"
  by (cases x rule: rank.cases) (simp_all add: num_le_def)

lemma num_le_Inf_Minus: "\<not> is_NaN x \<Longrightarrow> num_le (Inf Minus) x"
  by (cases x rule: rank.cases) (simp_all add: num_le_def)

lemma num_le_Inf_MinusD: "num_le x (Inf Minus) \<Longrightarrow> x = Inf Minus"
  by (cases x rule: rank.cases) (simp_all add: num_le_def)

lemma num_le_Inf_PlusD: "num_le (Inf Plus) x \<Longrightarrow> x = Inf Plus"
  by (cases x rule: rank.cases) (simp_all add: num_le_def)

lemma num_lt_imp_le: "num_lt x y \<Longrightarrow> num_le x y"
  by (auto simp: num_lt_def num_le_def)

lemma num_le_trans: "num_le x y \<Longrightarrow> num_le y z \<Longrightarrow> num_le x z"
  by (auto simp: num_le_def)

lemma zero_le_nonneg: "nonneg_proper z \<Longrightarrow> num_le (Zero Plus) z"
  by (cases z) (simp_all add: num_le_def)

lemma nonneg_proper_not_NaN: "nonneg_proper z \<Longrightarrow> \<not> is_NaN z"
  by (cases z) simp_all

lemma pos_finiteD: "pos_finite z \<Longrightarrow> \<exists>x. z = Fin x \<and> 0 < x"
  by (cases z) simp_all

lemma normal_finiteD: "normal_finite z \<Longrightarrow> \<exists>y. z = Fin y \<and> 2 powi (- 1022) \<le> \<bar>y\<bar>"
  by (cases z) simp_all

subsection \<open>Monotone operations\<close>

lemma div_pos_mono:
  assumes "num_le x y" "0 < c"
  shows "num_le (num_div x (Fin c)) (num_div y (Fin c))"
proof -
  have c: "sign_of_real c = Plus" using assms(2) by (simp add: sign_of_real_def)
  show ?thesis
  proof (cases x; cases y)
    fix a b assume "x = Fin a" "y = Fin b"
    then show ?thesis using assms round64_mono[of "a / c" "b / c"]
      by (simp add: num_le_def divide_right_mono)
  next
    fix s b assume "x = Zero s" "y = Fin b"
    then show ?thesis using assms round64_mono[of 0 "b / c"]
      by (cases s) (simp_all add: num_le_def round64_zero c round64_not_NaN)
  next
    fix a t assume "x = Fin a" "y = Zero t"
    then show ?thesis using assms round64_mono[of "a / c" 0]
      by (cases t) (simp_all add: num_le_def round64_zero c round64_not_NaN divide_le_0_iff)
  next
    fix s b assume "x = Inf s" "y = Fin b"
    then show ?thesis using assms num_le_Inf_PlusD[of y]
      by (cases s) (simp_all add: c round64_not_NaN num_le_Inf_Minus)
  next
    fix a t assume "x = Fin a" "y = Inf t"
    then show ?thesis using assms num_le_Inf_MinusD[of x]
      by (cases t) (simp_all add: c round64_not_NaN num_le_Inf_Plus)
  qed (use assms in \<open>auto simp: num_le_def c rank_Inf split: if_splits\<close>)
qed

lemma add_one_mono:
  assumes "num_le a b"
  shows "num_le (num_add (Fin 1) a) (num_add (Fin 1) b)"
proof (cases a; cases b)
  fix x y assume "a = Fin x" "b = Fin y"
  then show ?thesis using assms round64_mono[of "1 + x" "1 + y"] by (simp add: num_le_def)
next
  fix s y assume "a = Zero s" "b = Fin y"
  then show ?thesis using assms round64_mono[of 1 "1 + y"]
    by (simp add: num_le_def round64_one round64_not_NaN)
next
  fix x t assume "a = Fin x" "b = Zero t"
  then show ?thesis using assms round64_mono[of "1 + x" 1]
    by (simp add: num_le_def round64_one round64_not_NaN)
next
  fix s y assume "a = Inf s" "b = Fin y"
  then show ?thesis using assms num_le_Inf_PlusD[of b]
    by (cases s) (simp_all add: round64_not_NaN num_le_Inf_Minus)
next
  fix x t assume "a = Fin x" "b = Inf t"
  then show ?thesis using assms num_le_Inf_MinusD[of a]
    by (cases t) (simp_all add: round64_not_NaN num_le_Inf_Plus)
qed (use assms in \<open>auto simp: num_le_def rank_Inf split: if_splits\<close>)

lemma add_one_nonneg:
  assumes "num_le (Fin (- 1)) r"
  shows "nonneg_proper (num_add (Fin 1) r)"
proof (cases r)
  case (Fin y)
  then have "- 1 \<le> y" using assms by (simp add: num_le_def)
  then consider "1 + y = 0" | "0 < 1 + y" by linarith
  then show ?thesis
    by cases (simp_all add: Fin round64_zero round64_nonneg_proper)
next
  case (Inf s)
  then show ?thesis using assms by (cases s) (simp_all add: num_le_def)
qed (use assms in \<open>simp_all add: num_le_def\<close>)

lemma base_nonneg:
  assumes "num_le (Fin (- 100)) d"
  shows "nonneg_proper (num_add (Fin 1) (num_div d (Fin 100)))"
proof -
  have "num_le (num_div (Fin (- 100)) (Fin 100)) (num_div d (Fin 100))"
    using assms by (rule div_pos_mono) simp
  then have "num_le (Fin (- 1)) (num_div d (Fin 100))" by (simp add: round64_minus_one)
  then show ?thesis by (rule add_one_nonneg)
qed

lemma Math_pow_nonneg:
  assumes "mono_pow pw" "0 < n" "nonneg_proper b"
  shows "nonneg_proper (Math_pow pw b (Fin n))"
proof (cases b)
  case (Fin x)
  then have "0 < x" using assms(3) by simp
  with assms(1,2) have "nonneg_proper (pw x n)" unfolding mono_pow_def by blast
  then show ?thesis using \<open>0 < x\<close> by (simp add: Fin)
next
  case (Inf s)
  then show ?thesis using assms by (simp add: num_lt_def)
next
  case (Zero s)
  then show ?thesis using assms by (simp add: num_lt_def)
qed (use assms in simp)

lemma Math_pow_mono:
  assumes "mono_pow pw" "0 < n" "nonneg_proper b" "nonneg_proper b'" "num_le b b'"
  shows "num_le (Math_pow pw b (Fin n)) (Math_pow pw b' (Fin n))"
proof -
  note nn = Math_pow_nonneg[OF assms(1,2)]
  show ?thesis
  proof (cases b; cases b')
    fix x y assume *: "b = Fin x" "b' = Fin y"
    then have "0 < x" "x \<le> y" using assms(3,5) by (simp_all add: num_le_def)
    with assms(1,2) have "num_le (pw x n) (pw y n)" unfolding mono_pow_def by blast
    then show ?thesis using \<open>0 < x\<close> \<open>x \<le> y\<close> by (simp add: *)
  next
    fix s y assume *: "b = Zero s" "b' = Fin y"
    then show ?thesis using assms(2,3) nn[OF assms(4)] zero_le_nonneg[of "Math_pow pw b' (Fin n)"]
      by (simp add: num_lt_def)
  next
    fix x t assume *: "b = Fin x" "b' = Inf t"
    then show ?thesis using assms(2,4) nn[OF assms(3)] nonneg_proper_not_NaN num_le_Inf_Plus
      by (simp add: num_lt_def)
  qed (use assms in \<open>auto simp: num_le_def num_lt_def\<close>)
qed

lemma div_nonneg:
  assumes "0 < x" "nonneg_proper p"
  shows "nonneg_proper (num_div (Fin x) p)"
  using assms by (cases p) (simp_all add: sign_of_real_def round64_nonneg_proper)

lemma div_antitone:
  assumes "0 < x" "nonneg_proper p" "nonneg_proper p'" "num_le p p'"
  shows "num_le (num_div (Fin x) p') (num_div (Fin x) p)"
proof -
  have sx: "sign_of_real x = Plus" using assms(1) by (simp add: sign_of_real_def)
  show ?thesis
  proof (cases p; cases p')
    fix a b assume *: "p = Fin a" "p' = Fin b"
    then have "0 < a" "a \<le> b" using assms by (simp_all add: num_le_def)
    then have "x / b \<le> x / a" using assms(1) by (simp add: frac_le)
    then show ?thesis using round64_mono * by simp
  next
    fix s b assume *: "p = Zero s" "p' = Fin b"
    then show ?thesis using assms by (simp add: sx round64_not_NaN num_le_Inf_Plus)
  next
    fix a t assume *: "p = Fin a" "p' = Inf t"
    then show ?thesis using assms div_nonneg[OF assms(1,2)] zero_le_nonneg
      by (simp add: sx)
  qed (use assms in \<open>auto simp: num_le_def sx\<close>)
qed

lemma mono_pow_pow_cr: "mono_pow pow_cr"
  unfolding mono_pow_def
proof (intro allI impI)
  fix b b' e :: real
  assume b: "0 < b" and bb: "b \<le> b'" and e: "0 < e"
  let ?v = "\<lambda>b. if is_integral e then b powi \<lfloor>e\<rfloor> else b powr e"
  have pos: "0 < ?v c" if "0 < c" for c using that by simp
  have "?v b \<le> ?v b'"
  proof (cases "is_integral e")
    case True
    then have "0 \<le> \<lfloor>e\<rfloor>" using e by simp
    then have "b powi \<lfloor>e\<rfloor> \<le> b' powi \<lfloor>e\<rfloor>"
      using b bb by (intro power_int_mono) simp_all
    then show ?thesis using True by simp
  next
    case False
    then show ?thesis using b bb e by (simp add: powr_mono2)
  qed
  then have "num_le (round64 (?v b)) (round64 (?v b'))" by (rule round64_mono)
  moreover have "nonneg_proper (round64 (?v b))" using pos[OF b] by (rule round64_nonneg_proper)
  moreover have "nonneg_proper (round64 (?v b'))"
    using pos[of b'] b bb by (intro round64_nonneg_proper) simp
  ultimately show "nonneg_proper (pow_cr b e) \<and> nonneg_proper (pow_cr b' e)
      \<and> num_le (pow_cr b e) (pow_cr b' e)"
    by (simp add: pow_cr_def)
qed

lemma power_factor_mono:
  assumes "mono_pow pw" "pos_finite (anni s)" "num_le (Fin (- 100)) (discountRate s)"
    "num_lt (discountRate s) d'"
  shows "nonneg_proper (powerFactor (results pw s))
    \<and> nonneg_proper (powerFactor (results pw (s\<lparr>discountRate := d'\<rparr>)))
    \<and> num_le (powerFactor (results pw s)) (powerFactor (results pw (s\<lparr>discountRate := d'\<rparr>)))"
proof -
  let ?b = "num_add (Fin 1) (num_div (discountRate s) (Fin 100))"
  let ?b' = "num_add (Fin 1) (num_div d' (Fin 100))"
  obtain n where n: "anni s = Fin n" "0 < n" using assms(2) pos_finiteD by blast
  have le: "num_le (discountRate s) d'" using assms(4) by (rule num_lt_imp_le)
  have b: "nonneg_proper ?b" using assms(3) by (rule base_nonneg)
  have b': "nonneg_proper ?b'" using num_le_trans[OF assms(3) le] by (rule base_nonneg)
  have "num_le (num_div (discountRate s) (Fin 100)) (num_div d' (Fin 100))"
    using le by (rule div_pos_mono) simp
  then have bb: "num_le ?b ?b'" by (rule add_one_mono)
  have "nonneg_proper (Math_pow pw ?b (Fin n))" "nonneg_proper (Math_pow pw ?b' (Fin n))"
    using Math_pow_nonneg[OF assms(1) n(2)] b b' by simp_all
  moreover have "num_le (Math_pow pw ?b (Fin n)) (Math_pow pw ?b' (Fin n))"
    using assms(1) n(2) b b' bb by (rule Math_pow_mono)
  ultimately show ?thesis using n by (simp add: results_def Let_def)
qed

lemma discount_antitone:
  assumes "num_le (Zero Plus) ev" "nonneg_proper p" "nonneg_proper p'" "num_le p p'"
    and "\<not> is_NaN (num_div ev p)" "\<not> is_NaN (num_div ev p')"
  shows "num_le (num_div ev p') (num_div ev p)"
proof (cases ev)
  case (Fin x)
  then have "0 \<le> x" using assms(1) by (simp add: num_le_def)
  then consider "0 < x" | "x = 0" by linarith
  then show ?thesis
  proof cases
    case 1
    then show ?thesis unfolding Fin using assms(2-4) by (rule div_antitone)
  next
    case 2
    show ?thesis using assms(2-4)
      by (cases p; cases p')
        (auto simp: Fin 2 num_le_def sign_of_real_def round64_zero rank_Inf split: if_splits)
  qed
next
  case (Zero t)
  show ?thesis using assms(2-6)
    by (cases p; cases p') (auto simp: Zero num_le_def sign_of_real_def)
next
  case (Inf t)
  then have t: "t = Plus" using assms(1) by (cases t) (simp_all add: num_le_def)
  show ?thesis using assms(2-6)
    by (cases p; cases p') (auto simp: Inf t num_le_def sign_of_real_def)
qed (use assms(1) in \<open>simp add: num_le_def\<close>)

lemma discount_nonneg:
  assumes "num_le (Zero Plus) ev" "ev \<noteq> Zero Minus" "nonneg_proper p" "\<not> is_NaN (num_div ev p)"
  shows "nonneg_proper (num_div ev p)"
proof (cases ev)
  case (Fin x)
  then have "0 \<le> x" using assms(1) by (simp add: num_le_def)
  then consider "0 < x" | "x = 0" by linarith
  then show ?thesis
  proof cases
    case 1
    then show ?thesis unfolding Fin using assms(3) by (rule div_nonneg)
  next
    case 2
    show ?thesis using assms(3)
      by (cases p) (auto simp: Fin 2 sign_of_real_def round64_zero)
  qed
next
  case (Zero t)
  then have "t = Plus" using assms(2) by (cases t) simp_all
  then show ?thesis using assms(3,4) by (cases p) (auto simp: Zero sign_of_real_def)
next
  case (Inf t)
  then have t: "t = Plus" using assms(1) by (cases t) (simp_all add: num_le_def)
  show ?thesis using assms(3,4) by (cases p) (auto simp: Inf t sign_of_real_def)
qed (use assms(1) in \<open>simp add: num_le_def\<close>)

lemma ownership_monotone:
  assumes "num_le (Zero Plus) ev" "nonneg_proper p" "nonneg_proper p'" "num_le p p'"
    and "\<not> is_NaN (num_div ev p)" "\<not> is_NaN (num_div ev p')" and "0 < i"
  shows "num_le (num_div (Fin i) (num_div ev p)) (num_div (Fin i) (num_div ev p'))"
proof (cases "ev = Zero Minus")
  case True
  show ?thesis using assms(2-6)
    by (cases p; cases p') (auto simp: True num_le_def sign_of_real_def)
next
  case False
  have "nonneg_proper (num_div ev p')" using assms(1) False assms(3,6) by (rule discount_nonneg)
  moreover have "nonneg_proper (num_div ev p)" using assms(1) False assms(2,5) by (rule discount_nonneg)
  moreover have "num_le (num_div ev p') (num_div ev p)" using assms(1-6) by (rule discount_antitone)
  ultimately show ?thesis using assms(7) by (intro div_antitone)
qed

lemma discounted_le:
  assumes "num_le (Fin 1) pf" "num_le (Zero Plus) ev" "\<not> (is_infinite ev \<and> is_infinite pf)"
    and "\<And>y. ev = Fin y \<Longrightarrow> round64 y = Fin y"
  shows "num_le (num_div ev pf) ev"
proof (cases ev; cases pf)
  fix e p assume *: "ev = Fin e" "pf = Fin p"
  then have "0 \<le> e" "1 \<le> p" using assms(1,2) by (simp_all add: num_le_def)
  then have "e / p \<le> e"
    by (metis div_by_1 frac_le less_eq_real_def zero_less_one)
  then have "num_le (round64 (e / p)) (round64 e)" by (rule round64_mono)
  then show ?thesis using assms(4)[OF *(1)] * by simp
next
  fix e t assume *: "ev = Fin e" "pf = Inf t"
  then show ?thesis using assms(1,2) by (simp add: num_le_def)
next
  fix s p assume *: "ev = Zero s" "pf = Fin p"
  then show ?thesis using assms(1,2) by (simp add: num_le_def)
next
  fix s p assume *: "ev = Inf s" "pf = Fin p"
  then show ?thesis using assms(1,2)
    by (cases s) (simp_all add: num_le_def sign_of_real_def)
qed (use assms in \<open>auto simp: num_le_def\<close>)

lemma mul_nonneg:
  assumes "num_le (Zero Plus) a" "num_le (Zero Plus) b" "\<not> is_NaN (num_mul a b)"
  shows "num_le (Zero Plus) (num_mul a b)"
proof (cases a; cases b)
  fix x y assume *: "a = Fin x" "b = Fin y"
  then have "0 \<le> x * y" using assms(1,2) by (simp add: num_le_def)
  then have "num_le (round64 0) (round64 (x * y))" by (rule round64_mono)
  then show ?thesis by (simp add: * round64_zero)
qed (use assms in \<open>auto simp: num_le_def sign_of_real_def rank_Inf split: if_splits\<close>)

lemma mul_NaN_left: "\<not> is_NaN (num_mul a b) \<Longrightarrow> \<not> is_NaN a"
  by (cases a) simp_all

subsection \<open>Exact and degenerate operations\<close>

lemma num_mul_double: "num_mul a b = Fin y \<Longrightarrow> round64 y = Fin y"
  by (cases a; cases b) (auto dest: round64_idem)

lemma num_div_one:
  assumes "\<And>y. x = Fin y \<Longrightarrow> round64 y = Fin y"
  shows "num_div x (Fin 1) = x"
  using assms by (cases x) (simp_all add: sign_of_real_def)

lemma num_div_FinD:
  "num_div a b = Fin y \<Longrightarrow> \<exists>x z. a = Fin x \<and> b = Fin z \<and> round64 (x / z) = Fin y"
  by (cases a; cases b) simp_all

lemma num_mul_FinD:
  "num_mul a b = Fin y \<Longrightarrow> \<exists>x z. a = Fin x \<and> b = Fin z \<and> round64 (x * z) = Fin y"
  by (cases a; cases b) simp_all

lemma div_by_zero_special: "is_zero y \<Longrightarrow> is_infinite (num_div x y) \<or> is_NaN (num_div x y)"
  by (cases x; cases y) simp_all

lemma zero_div_zero: "is_zero y \<Longrightarrow> is_zero x \<or> is_NaN x \<Longrightarrow> is_NaN (num_div x y)"
  by (cases x; cases y) simp_all

lemma zero_div_any: "is_zero x \<Longrightarrow> is_zero (num_div x y) \<or> is_NaN (num_div x y)"
  by (cases x; cases y) simp_all

lemma mul_zero_or_NaN: "is_zero y \<or> is_NaN y \<Longrightarrow> is_zero (num_mul x y) \<or> is_NaN (num_mul x y)"
  by (cases x; cases y) simp_all

lemma zero_mul_finite:
  "is_zero a \<Longrightarrow> \<not> is_NaN b \<Longrightarrow> \<not> is_infinite b \<Longrightarrow> is_zero (num_mul a b)"
  by (cases a; cases b) simp_all

lemma zero_div_cases:
  "is_zero x \<Longrightarrow>
     (if is_zero y \<or> is_NaN y then is_NaN (num_div x y) else is_zero (num_div x y))"
  by (cases x; cases y) simp_all

lemma div_NaN: "is_NaN x \<or> is_NaN y \<Longrightarrow> is_NaN (num_div x y)"
  by (cases x; cases y) simp_all

lemma mul_NaN: "is_NaN x \<or> is_NaN y \<Longrightarrow> is_NaN (num_mul x y)"
  by (cases x; cases y) simp_all

lemma sub_NaN: "is_NaN x \<or> is_NaN y \<Longrightarrow> is_NaN (num_sub x y)"
  by (cases x; cases y) (simp_all add: num_sub_def)

lemma div_infinite: "is_infinite x \<Longrightarrow> is_infinite (num_div x y) \<or> is_NaN (num_div x y)"
  by (cases x; cases y) simp_all

lemma in_millions_zero_power:
  assumes "is_zero p"
  shows "is_infinite (num_div (num_div ev p) (Fin 1000000))
      \<or> is_NaN (num_div (num_div ev p) (Fin 1000000))"
  using div_by_zero_special[OF assms, of ev]
  by (cases "num_div ev p") simp_all

lemma in_millions_NaN:
  assumes "is_NaN ev \<or> is_NaN p"
  shows "is_NaN (num_div (num_div ev p) (Fin 1000000))"
  using div_NaN[OF assms] by (cases "num_div ev p") simp_all

lemma in_millions_infinite:
  "is_zero p \<Longrightarrow> is_infinite (num_div (num_div (Fin x) p) (Fin c))"
  by (cases p) simp_all

lemma pow_zero_exponent: "is_zero e \<Longrightarrow> Math_pow pw b e = Fin 1"
  by (cases e) simp_all

subsection \<open>The digits of toFixed\<close>

lemma decimal_nonempty: "decimal n \<noteq> []"
  by (subst decimal.simps) simp

lemma digit_char_0: "digit_char 0 = CHR ''0''"
  by (simp add: digit_char_def)

lemma decimal_0: "decimal 0 = ''0''"
  by (subst decimal.simps) (simp add: digit_char_0)

lemma digit_char_mod: "digit_char (n mod 10) = digit_char n"
  by (simp add: digit_char_def)

lemma split_last_digit:
  "(if length (decimal n) \<le> 1 then replicate (2 - length (decimal n)) CHR ''0'' @ decimal n
    else decimal n) = decimal (n div 10) @ [digit_char (n mod 10)]"
proof (cases "n < 10")
  case True
  then have "decimal n = [digit_char n]" by (subst decimal.simps) simp
  then show ?thesis using True by (simp add: decimal_0 digit_char_mod)
next
  case False
  then have d: "decimal n = decimal (n div 10) @ [digit_char (n mod 10)]"
    by (subst decimal.simps) simp
  have "1 \<le> length (decimal (n div 10))"
    using decimal_nonempty[of "n div 10"] by (cases "decimal (n div 10)") simp_all
  then show ?thesis by (simp add: d decimal_nonempty)
qed

lemma fixed_digits_one:
  "fixed_digits 1 x =
     decimal (nat \<lfloor>x * 10 + 1 / 2\<rfloor> div 10) @ ''.'' @ [digit_char (nat \<lfloor>x * 10 + 1 / 2\<rfloor> mod 10)]"
proof -
  let ?n = "nat \<lfloor>x * 10 + 1 / 2\<rfloor>"
  let ?m' = "if length (decimal ?n) \<le> 1
             then replicate (2 - length (decimal ?n)) CHR ''0'' @ decimal ?n else decimal ?n"
  have "fixed_digits 1 x = take (length ?m' - 1) ?m' @ ''.'' @ drop (length ?m' - 1) ?m'"
    by (simp add: fixed_digits_def Let_def)
  also have "?m' = decimal (?n div 10) @ [digit_char (?n mod 10)]" by (rule split_last_digit)
  finally show ?thesis by simp
qed

lemma fixed_digits_Suc0:
  "fixed_digits (Suc 0) x =
     decimal (nat \<lfloor>x * 10 + 1 / 2\<rfloor> div 10) @ ''.'' @ [digit_char (nat \<lfloor>x * 10 + 1 / 2\<rfloor> mod 10)]"
  using fixed_digits_one[of x] by simp

lemma fixed_digits_zero: "fixed_digits 0 x = decimal (nat \<lfloor>x + 1 / 2\<rfloor>)"
  by (simp add: fixed_digits_def)

lemma toFixed1_shape:
  assumes "num_lt (Math_abs z) (Fin (10 ^ 21))"
  shows "toFixed 1 z = Inr (one_decimal (real_of z))"
proof (cases z)
  case (Fin q)
  then have "\<bar>q\<bar> < 10 ^ 21" using assms by (simp add: num_lt_def)
  then show ?thesis
    by (simp add: Fin toFixed_def one_decimal_def fixed_digits_Suc0 Let_def)
next
  case (Zero s)
  then show ?thesis
    by (cases s) (simp_all add: toFixed_def one_decimal_def fixed_digits_Suc0 Let_def)
qed (use assms in \<open>simp_all add: num_lt_def\<close>)

lemma toFixed0_shape:
  assumes "num_lt (Math_abs z) (Fin (10 ^ 21))"
  shows "toFixed 0 z = Inr (no_decimals (real_of z))"
proof (cases z)
  case (Fin q)
  then have "\<bar>q\<bar> < 10 ^ 21" using assms by (simp add: num_lt_def)
  then show ?thesis
    by (simp add: Fin toFixed_def no_decimals_def fixed_digits_zero)
next
  case (Zero s)
  then show ?thesis
    by (cases s) (simp_all add: toFixed_def no_decimals_def fixed_digits_zero)
qed (use assms in \<open>simp_all add: num_lt_def\<close>)

subsection \<open>The rounding error\<close>

lemma nearest_error:
  assumes x: "0 < x" and y: "2 powi (- 1022) \<le> nearest x"
  shows "\<bar>nearest x - x\<bar> \<le> 2 powi (- 53) * nearest x"
proof -
  let ?q = "ulp_exp x"
  let ?m = "rhe (x * 2 powi (- ?q))"
  have big: "2 powi (?q + 52) \<le> nearest x"
  proof (cases "- 1022 \<le> ilog2 x")
    case True
    with x show ?thesis by (rule nearest_ge)
  next
    case False
    then have "?q = - 1074" by (simp add: ulp_exp_def)
    then show ?thesis using y by simp
  qed
  have "\<bar>real_of_int ?m - x * 2 powi (- ?q)\<bar> \<le> 1 / 2" by (rule rhe_near)
  then have "\<bar>real_of_int ?m - x * 2 powi (- ?q)\<bar> * 2 powi ?q \<le> 1 / 2 * 2 powi ?q"
    by (intro mult_right_mono) simp_all
  moreover have "\<bar>real_of_int ?m - x * 2 powi (- ?q)\<bar> * 2 powi ?q = \<bar>nearest x - x\<bar>"
  proof -
    have "\<bar>real_of_int ?m - x * 2 powi (- ?q)\<bar> * 2 powi ?q
        = \<bar>(real_of_int ?m - x * 2 powi (- ?q)) * 2 powi ?q\<bar>"
      by (simp add: abs_mult)
    also have "(real_of_int ?m - x * 2 powi (- ?q)) * 2 powi ?q
        = nearest x - x * (2 powi ?q * 2 powi (- ?q))"
      by (simp add: nearest_def algebra_simps)
    also have "\<dots> = nearest x - x" by (simp only: powi2_cancel mult_1_right)
    finally show ?thesis .
  qed
  ultimately have "\<bar>nearest x - x\<bar> \<le> 1 / 2 * 2 powi ?q" by simp
  also have "1 / 2 * 2 powi ?q = 2 powi (- 53) * (2::real) powi (?q + 52)"
    by (simp add: powi2_add)
  also have "\<dots> \<le> 2 powi (- 53) * nearest x"
    using big by (intro mult_left_mono) simp_all
  finally show ?thesis .
qed

lemma round64_error:
  assumes "round64 x = Fin y" "2 powi (- 1022) \<le> \<bar>y\<bar>"
  shows "\<bar>y - x\<bar> \<le> 2 powi (- 53) * \<bar>y\<bar>"
proof -
  have x0: "x \<noteq> 0" using assms(1) by (auto simp: round64_def)
  show ?thesis
  proof (cases "0 < x")
    case True
    from round64_Fin_pos[OF True assms(1)] have y: "y = nearest x" "0 < y" by auto
    then show ?thesis using nearest_error[OF True] assms(2) by simp
  next
    case False
    then have n: "x < 0" using x0 by simp
    from round64_Fin_neg[OF n assms(1)] have y: "y = - nearest (- x)" "y < 0" by auto
    have "\<bar>nearest (- x) - (- x)\<bar> \<le> 2 powi (- 53) * nearest (- x)"
      using n assms(2) y by (intro nearest_error) simp_all
    moreover have "\<bar>nearest (- x) - (- x)\<bar> = \<bar>y - x\<bar>" using y by simp
    ultimately show ?thesis using y by simp
  qed
qed

lemma factor_of_error:
  fixes x y u :: real
  assumes "\<bar>y - x\<bar> \<le> u * \<bar>y\<bar>" "y \<noteq> 0"
  shows "\<exists>a. x = y * a \<and> 1 - u \<le> a \<and> a \<le> 1 + u"
proof (intro exI conjI)
  show "x = y * (x / y)" using assms(2) by simp
  have "\<bar>x / y - 1\<bar> = \<bar>y - x\<bar> / \<bar>y\<bar>"
    using assms(2) by (simp add: abs_minus_commute diff_divide_distrib flip: abs_divide)
  also have "\<dots> \<le> u" using assms by (simp add: field_simps)
  finally have "\<bar>x / y - 1\<bar> \<le> u" .
  then show "1 - u \<le> x / y" "x / y \<le> 1 + u" by linarith+
qed

lemma ratio_bound:
  fixes a1 a2 a3 a4 :: real
  defines "u \<equiv> 2 powi (- 53)"
  assumes "1 - u \<le> a1" "a1 \<le> 1 + u" "1 - u \<le> a2" "a2 \<le> 1 + u"
    "1 - u \<le> a3" "a3 \<le> 1 + u" "1 - u \<le> a4" "a4 \<le> 1 + u"
  shows "\<bar>a1 / (a2 * a3 * a4) - 1\<bar> \<le> 5 * u"
proof -
  have u: "0 < 1 - u" "0 \<le> u" by (simp_all add: u_def)
  have lo: "(1 - u) * (1 - u) * (1 - u) \<le> a2 * a3 * a4"
    using assms u by (intro mult_mono) simp_all
  have hi: "a2 * a3 * a4 \<le> (1 + u) * (1 + u) * (1 + u)"
    using assms u by (intro mult_mono) simp_all
  have pos: "0 < (1 - u) * (1 - u) * (1 - u)" using u by simp
  have pos': "0 < a2 * a3 * a4" using lo pos by linarith
  have "a1 / (a2 * a3 * a4) \<le> (1 + u) / ((1 - u) * (1 - u) * (1 - u))"
    using assms u lo pos by (intro frac_le) simp_all
  also have "\<dots> \<le> 1 + 5 * u" by (simp add: u_def)
  finally have up: "a1 / (a2 * a3 * a4) \<le> 1 + 5 * u" .
  have "1 - 5 * u \<le> (1 - u) / ((1 + u) * (1 + u) * (1 + u))" by (simp add: u_def)
  also have "\<dots> \<le> a1 / (a2 * a3 * a4)"
    using assms u hi pos' by (intro frac_le) simp_all
  finally show ?thesis using up by linarith
qed

lemma rounding_factor:
  assumes "round64 x = Fin y" "2 powi (- 1022) \<le> \<bar>y\<bar>"
  shows "\<exists>a. x = y * a \<and> 1 - 2 powi (- 53) \<le> a \<and> a \<le> 1 + 2 powi (- 53)"
  using round64_error[OF assms] round64_Fin_nonzero[OF assms(1)] by (rule factor_of_error)

lemma cancel_chain:
  fixes e p v i o' t \<rho> a1 a2 a3 a4 :: real
  assumes "e / p = v * a1" "i / v = o' * a2" "e * o' = t * a3" "t / i = \<rho> * a4"
    and "v \<noteq> 0" "o' \<noteq> 0" "t \<noteq> 0" "\<rho> \<noteq> 0"
    and "0 < a1" "0 < a2" "0 < a3" "0 < a4"
  shows "\<rho> = p * (a1 / (a2 * a3 * a4))"
proof -
  have ep: "e / p \<noteq> 0" using assms by simp
  then have e: "e \<noteq> 0" and p: "p \<noteq> 0" by auto
  have "i / v \<noteq> 0" using assms by simp
  then have i: "i \<noteq> 0" by auto
  have 1: "e = p * v * a1" using assms(1) p by (simp add: field_simps)
  have 2: "i = v * o' * a2" using assms(2,5) by (simp add: field_simps)
  have 4: "t = i * \<rho> * a4" using assms(4) i by (simp add: field_simps)
  have "p * v * a1 * o' = v * o' * a2 * \<rho> * a4 * a3"
    using assms(3) unfolding 4 unfolding 2 unfolding 1 by (simp add: mult_ac)
  then have "v * o' * (p * a1) = v * o' * (\<rho> * (a2 * a3 * a4))" by (simp add: mult_ac)
  then have "p * a1 = \<rho> * (a2 * a3 * a4)" using assms(5,6) by simp
  then show ?thesis using assms(10-12) by (simp add: field_simps)
qed

lemma nearest_abs_error:
  assumes "0 < x"
  shows "\<bar>nearest x - x\<bar> \<le> 2 powi (ulp_exp x - 1)"
proof -
  let ?q = "ulp_exp x"
  let ?m = "rhe (x * 2 powi (- ?q))"
  have "\<bar>real_of_int ?m - x * 2 powi (- ?q)\<bar> \<le> 1 / 2" by (rule rhe_near)
  then have "\<bar>real_of_int ?m - x * 2 powi (- ?q)\<bar> * 2 powi ?q \<le> 1 / 2 * 2 powi ?q"
    by (intro mult_right_mono) simp_all
  moreover have "\<bar>real_of_int ?m - x * 2 powi (- ?q)\<bar> * 2 powi ?q = \<bar>nearest x - x\<bar>"
  proof -
    have "\<bar>real_of_int ?m - x * 2 powi (- ?q)\<bar> * 2 powi ?q
        = \<bar>(real_of_int ?m - x * 2 powi (- ?q)) * 2 powi ?q\<bar>"
      by (simp add: abs_mult)
    also have "(real_of_int ?m - x * 2 powi (- ?q)) * 2 powi ?q
        = nearest x - x * (2 powi ?q * 2 powi (- ?q))"
      by (simp add: nearest_def algebra_simps)
    also have "\<dots> = nearest x - x" by (simp only: powi2_cancel mult_1_right)
    finally show ?thesis .
  qed
  ultimately have "\<bar>nearest x - x\<bar> \<le> 1 / 2 * 2 powi ?q" by simp
  also have "1 / 2 * 2 powi ?q = (2::real) powi (?q - 1)"
    using powi2_add[of "?q - 1" 1] by simp
  finally show ?thesis .
qed

lemma round64_small:
  assumes "0 < x" "x < 16"
  shows "(round64 x = Zero Plus \<and> nearest x = 0 \<or> round64 x = Fin (nearest x))
    \<and> \<bar>nearest x - x\<bar> \<le> 2 powi (- 50)"
proof -
  have "(2::real) powi ilog2 x < 2 powi 4" using ilog2_bounds(1)[OF assms(1)] assms(2) by simp
  then have "ilog2 x < 4" by (rule powi2_less_imp)
  then have q: "ulp_exp x \<le> - 49" by (simp add: ulp_exp_def)
  have "nearest x \<le> 2 powi (ulp_exp x + 53)" using assms(1) by (rule nearest_le)
  also have "\<dots> \<le> 2 powi 4" using q by (intro powi2_mono) simp
  finally have "nearest x \<le> 16" by simp
  then have "\<not> huge \<le> nearest x" by (simp add: huge_def)
  then have 1: "round64 x = Zero Plus \<and> nearest x = 0 \<or> round64 x = Fin (nearest x)"
    using assms(1) by (simp add: round64_pos)
  have "\<bar>nearest x - x\<bar> \<le> 2 powi (ulp_exp x - 1)" using assms(1) by (rule nearest_abs_error)
  also have "\<dots> \<le> 2 powi (- 50)" using q by (intro powi2_mono) simp
  finally show ?thesis using 1 by simp
qed

lemma round64_powi2:
  assumes "- 1022 \<le> e" "e \<le> 1023"
  shows "round64 (2 powi e) = Fin (2 powi e)"
proof -
  have 1: "(2::real) powi e < 2 powi (e + 1)" by (simp add: powi2_add)
  have "(2::real) powi e * 2 powi (52 - e) = 2 powi 52" using powi2_add[of e "52 - e"] by simp
  then have 2: "rhe (2 powi e * 2 powi (52 - e)) = 2 ^ 52"
    using rhe_of_int[of "2 ^ 52"] by simp
  have 3: "real_of_int (2 ^ 52) * 2 powi (e - 52) = 2 powi e"
    using powi2_add[of 52 "e - 52"] by simp
  have "(2::real) powi e \<le> 2 powi 1023" using assms(2) by (rule powi2_mono)
  also have "\<dots> < 2 ^ 1024" by simp
  finally have 4: "real_of_int (2 ^ 52) * 2 powi (e - 52) < 2 ^ 1024" by (simp only: 3)
  show ?thesis using round64_eval[OF order_refl 1 assms(1) 2 4] by (simp only: 3)
qed

subsection \<open>Quotients by divisors that are clearly apart\<close>

lemma close_toD:
  assumes "close_to y x" "0 < x"
  shows "\<exists>p. y = Fin p \<and> x * (1 - 2 powi (- 51)) \<le> p \<and> p \<le> x * (1 + 2 powi (- 51))"
proof -
  from assms(1) obtain p where p: "y = Fin p" "\<bar>p - x\<bar> \<le> 2 powi (- 51) * \<bar>x\<bar>"
    by (cases y) (simp_all add: close_to_def)
  then have "\<bar>p - x\<bar> \<le> 2 powi (- 51) * x" using assms(2) by simp
  then have "x - 2 powi (- 51) * x \<le> p" "p \<le> x + 2 powi (- 51) * x" by linarith+
  then show ?thesis using p(1) by (simp add: algebra_simps)
qed

lemma close_powers_clearly_less:
  fixes x x' :: real
  assumes "close_to y x" "close_to y' x'" "0 < x" "x * (1 + 2 powi (- 48)) \<le> x'"
  shows "clearly_less y y'"
proof -
  let ?e = "(2::real) powi (- 51)"
  have x': "0 < x'"
  proof -
    have "0 < x * (1 + 2 powi (- 48))" using assms(3) by (intro mult_pos_pos) simp_all
    then show ?thesis using assms(4) by linarith
  qed
  obtain p where p: "y = Fin p" "x * (1 - ?e) \<le> p" "p \<le> x * (1 + ?e)"
    using close_toD[OF assms(1,3)] by blast
  obtain p' where p': "y' = Fin p'" "x' * (1 - ?e) \<le> p'" "p' \<le> x' * (1 + ?e)"
    using close_toD[OF assms(2) x'] by blast
  have e: "0 < 1 - ?e" by simp
  have "0 < x * (1 - ?e)" using assms(3) e by (rule mult_pos_pos)
  then have pp: "0 < p" using p(2) by linarith
  have "0 < x' * (1 - ?e)" using x' e by (rule mult_pos_pos)
  then have pp': "0 < p'" using p'(2) by linarith
  have "p * (1 + 2 powi (- 50)) \<le> x * (1 + ?e) * (1 + 2 powi (- 50))"
    using p(3) by (intro mult_right_mono) simp_all
  also have "\<dots> = x * ((1 + ?e) * (1 + 2 powi (- 50)))" by (simp add: mult_ac)
  also have "\<dots> \<le> x * ((1 + 2 powi (- 48)) * (1 - ?e))"
    using assms(3) by (intro mult_left_mono) simp_all
  also have "\<dots> = x * (1 + 2 powi (- 48)) * (1 - ?e)" by (simp add: mult_ac)
  also have "\<dots> \<le> x' * (1 - ?e)" using assms(4) e by (intro mult_right_mono) simp_all
  also have "\<dots> \<le> p'" by (rule p'(2))
  finally show ?thesis using pp pp' by (simp add: clearly_less_def p(1) p'(1))
qed

lemma div_strict:
  fixes x p p' :: real
  assumes "0 < x" "0 < p" "p * (1 + 2 powi (- 51)) \<le> p'"
    and "round64 (x / p') = Fin w'" "2 powi (- 1022) \<le> w'"
  shows "num_lt (round64 (x / p')) (round64 (x / p))"
proof -
  let ?u = "(2::real) powi (- 53)"
  let ?l = "(2::real) powi (- 51)"
  have p': "0 < p'"
  proof -
    have "0 < p * (1 + ?l)" using assms(2) by (intro mult_pos_pos) simp_all
    then show ?thesis using assms(3) by linarith
  qed
  have q': "0 < x / p'" using assms(1) p' by simp
  have q: "0 < x / p" using assms(1,2) by simp
  have sep: "x / p' * (1 + ?l) \<le> x / p"
  proof -
    have "x * (p * (1 + ?l)) \<le> x * p'" using assms(1,3) by (intro mult_left_mono) simp_all
    then show ?thesis using assms(2) p' by (simp add: field_simps)
  qed
  have le: "x / p' \<le> x / p"
  proof -
    have "x / p' * 1 \<le> x / p' * (1 + ?l)" using q' by (intro mult_left_mono) simp_all
    then show ?thesis using sep by simp
  qed
  have w'pos: "0 < w'" using round64_Fin_pos[OF q' assms(4)] by simp
  have mono: "num_le (round64 (x / p')) (round64 (x / p))" using le by (rule round64_mono)
  from round64_pos_cases[OF q] consider "round64 (x / p) = Inf Plus"
    | "round64 (x / p) = Zero Plus" | w where "round64 (x / p) = Fin w" "0 < w"
    by (auto simp: round64_pos split: if_splits dest: nearest_nonneg)
  then show ?thesis
  proof cases
    case 1
    then show ?thesis by (simp add: assms(4) num_lt_def)
  next
    case 2
    then show ?thesis using mono w'pos by (simp add: assms(4) num_le_def)
  next
    case 3
    have ww: "w' \<le> w" using mono by (simp add: assms(4) 3 num_le_def)
    then have wn: "2 powi (- 1022) \<le> \<bar>w\<bar>" using assms(5) by linarith
    have wn': "2 powi (- 1022) \<le> \<bar>w'\<bar>" using assms(5) by linarith
    obtain a where a: "x / p = w * a" "1 - ?u \<le> a" "a \<le> 1 + ?u"
      using rounding_factor[OF 3(1) wn] by blast
    obtain a' where a': "x / p' = w' * a'" "1 - ?u \<le> a'" "a' \<le> 1 + ?u"
      using rounding_factor[OF assms(4) wn'] by blast
    have "w' \<noteq> w"
    proof
      assume eq: "w' = w"
      have "w * (a' * (1 + ?l)) \<le> w * a" using sep by (simp add: a(1) a'(1) eq mult_ac)
      then have "a' * (1 + ?l) \<le> a" using 3(2) by simp
      moreover have "(1 - ?u) * (1 + ?l) \<le> a' * (1 + ?l)"
        using a'(2) by (intro mult_right_mono) simp_all
      moreover have "1 + ?u < (1 - ?u) * (1 + ?l)" by simp
      ultimately show False using a(3) by linarith
    qed
    then have "w' < w" using ww by linarith
    then show ?thesis by (simp add: assms(4) 3 num_lt_def)
  qed
qed

lemma div_separated:
  fixes x p p' :: real
  assumes "0 < x" "0 < p" "p * (1 + 2 powi (- 50)) \<le> p'"
    and "round64 (x / p') = Fin w'" "2 powi (- 1022) \<le> w'"
    and "round64 (x / p) = Fin w"
  shows "w' * (1 + 2 powi (- 51)) \<le> w"
proof -
  let ?u = "(2::real) powi (- 53)"
  let ?k = "(2::real) powi (- 50)"
  let ?l = "(2::real) powi (- 51)"
  have p': "0 < p'"
  proof -
    have "0 < p * (1 + ?k)" using assms(2) by (intro mult_pos_pos) simp_all
    then show ?thesis using assms(3) by linarith
  qed
  have q': "0 < x / p'" using assms(1) p' by simp
  have q: "0 < x / p" using assms(1,2) by simp
  have sep: "x / p' * (1 + ?k) \<le> x / p"
  proof -
    have "x * (p * (1 + ?k)) \<le> x * p'" using assms(1,3) by (intro mult_left_mono) simp_all
    then show ?thesis using assms(2) p' by (simp add: field_simps)
  qed
  have le: "x / p' \<le> x / p"
  proof -
    have "x / p' * 1 \<le> x / p' * (1 + ?k)" using q' by (intro mult_left_mono) simp_all
    then show ?thesis using sep by simp
  qed
  have w'pos: "0 < w'" using round64_Fin_pos[OF q' assms(4)] by simp
  have wpos: "0 < w" using round64_Fin_pos[OF q assms(6)] by simp
  have "num_le (round64 (x / p')) (round64 (x / p))" using le by (rule round64_mono)
  then have ww: "w' \<le> w" by (simp add: assms(4,6) num_le_def)
  then have wn: "2 powi (- 1022) \<le> \<bar>w\<bar>" using assms(5) by linarith
  have wn': "2 powi (- 1022) \<le> \<bar>w'\<bar>" using assms(5) by linarith
  obtain a where a: "x / p = w * a" "1 - ?u \<le> a" "a \<le> 1 + ?u"
    using rounding_factor[OF assms(6) wn] by blast
  obtain a' where a': "x / p' = w' * a'" "1 - ?u \<le> a'" "a' \<le> 1 + ?u"
    using rounding_factor[OF assms(4) wn'] by blast
  have "w' * ((1 + ?l) * (1 + ?u)) \<le> w' * ((1 - ?u) * (1 + ?k))"
    using w'pos by (intro mult_left_mono) simp_all
  also have "\<dots> = w' * (1 - ?u) * (1 + ?k)" by (simp add: mult_ac)
  also have "\<dots> \<le> w' * a' * (1 + ?k)"
    using a'(2) w'pos by (intro mult_right_mono mult_left_mono) simp_all
  also have "\<dots> \<le> w * a" using sep by (simp add: a(1) a'(1))
  also have "\<dots> \<le> w * (1 + ?u)" using a(3) wpos by (intro mult_left_mono) simp_all
  finally have "w' * (1 + ?l) * (1 + ?u) \<le> w * (1 + ?u)" by (simp add: mult_ac)
  then show ?thesis by simp
qed

lemma discount_strict:
  assumes "0 < x" "clearly_less p p'" "normal_finite (num_div (Fin x) p')"
  shows "num_lt (num_div (Fin x) p') (num_div (Fin x) p)"
    and "0 < i \<Longrightarrow> normal_finite (num_div (Fin i) (num_div (Fin x) p)) \<Longrightarrow>
      num_lt (num_div (Fin i) (num_div (Fin x) p)) (num_div (Fin i) (num_div (Fin x) p'))"
proof -
  obtain a where a: "p = Fin a" "0 < a" using assms(2) pos_finiteD clearly_less_def by blast
  obtain a' where a': "p' = Fin a'" "0 < a'" using assms(2) pos_finiteD clearly_less_def by blast
  have sep: "a * (1 + 2 powi (- 50)) \<le> a'" using assms(2) by (simp add: clearly_less_def a a')
  have "a * (1 + 2 powi (- 51)) \<le> a * (1 + 2 powi (- 50))"
    using a(2) by (intro mult_left_mono) simp_all
  then have sep': "a * (1 + 2 powi (- 51)) \<le> a'" using sep by linarith
  obtain w' where w': "round64 (x / a') = Fin w'" "2 powi (- 1022) \<le> \<bar>w'\<bar>"
    using normal_finiteD[OF assms(3)] by (auto simp: a')
  have "0 < x / a'" using assms(1) a'(2) by simp
  then have w'pos: "0 < w'" using round64_Fin_pos w'(1) by blast
  then have w'n: "2 powi (- 1022) \<le> w'" using w'(2) by simp
  show "num_lt (num_div (Fin x) p') (num_div (Fin x) p)"
    using div_strict[OF assms(1) a(2) sep' w'(1) w'n] by (simp add: a a')
  show "num_lt (num_div (Fin i) (num_div (Fin x) p)) (num_div (Fin i) (num_div (Fin x) p'))"
    if i: "0 < i" and o: "normal_finite (num_div (Fin i) (num_div (Fin x) p))"
  proof -
    obtain w where w: "round64 (x / a) = Fin w"
      using o by (cases "round64 (x / a)") (simp_all add: a sign_of_real_def)
    have "0 < x / a" using assms(1) a(2) by simp
    then have wpos: "0 < w" using round64_Fin_pos w by blast
    have ws: "w' * (1 + 2 powi (- 51)) \<le> w"
      using assms(1) a(2) sep w'(1) w'n w by (rule div_separated)
    obtain v where v: "round64 (i / w) = Fin v" "2 powi (- 1022) \<le> \<bar>v\<bar>"
      using normal_finiteD[OF o] by (auto simp: a w)
    have "0 < i / w" using i wpos by simp
    then have "0 < v" using round64_Fin_pos v(1) by blast
    then have vn: "2 powi (- 1022) \<le> v" using v(2) by simp
    show ?thesis using div_strict[OF i w'pos ws v(1) vn] by (simp add: a a' w w')
  qed
qed

subsection \<open>Power factors of rates that are apart\<close>

lemma base_error:
  assumes "num_le (Zero Plus) d" "num_le d (Fin 1000)"
  shows "\<exists>b. num_add (Fin 1) (num_div d (Fin 100)) = Fin b
    \<and> \<bar>b - (1 + real_of d / 100)\<bar> \<le> 2 powi (- 49) \<and> 1 / 2 \<le> b \<and> b \<le> 12"
proof (cases d)
  case (Fin a)
  then have a: "0 \<le> a" "a \<le> 1000" using assms by (simp_all add: num_le_def)
  show ?thesis
  proof (cases "a = 0")
    case True
    then show ?thesis by (simp add: Fin round64_zero)
  next
    case False
    then have q: "0 < a / 100" "a / 100 < 16" using a by simp_all
    let ?r = "nearest (a / 100)"
    note s = round64_small[OF q]
    have r0: "0 \<le> ?r" using q(1) by (rule nearest_nonneg)
    have e: "\<bar>?r - a / 100\<bar> \<le> 2 powi (- 50)" using s by simp
    have small: "(2::real) powi (- 50) \<le> 1" by simp
    have "?r \<le> a / 100 + 2 powi (- 50)" using e by linarith
    then have r10: "?r \<le> 11" using a(2) small by linarith
    from s consider "round64 (a / 100) = Zero Plus" "?r = 0" | "round64 (a / 100) = Fin ?r"
      by blast
    then show ?thesis
    proof cases
      case 1
      then have "num_add (Fin 1) (num_div d (Fin 100)) = Fin 1" by (simp add: Fin)
      moreover have "\<bar>1 - (1 + a / 100)\<bar> \<le> 2 powi (- 50)" using e 1(2) by linarith
      moreover have "(2::real) powi (- 50) \<le> 2 powi (- 49)" by (intro powi2_mono) simp
      ultimately show ?thesis by (intro exI[of _ 1]) (simp add: Fin)
    next
      case 2
      have p: "0 < 1 + ?r" "1 + ?r < 16" using r0 r10 by simp_all
      let ?b = "nearest (1 + ?r)"
      note t = round64_small[OF p]
      have f: "\<bar>?b - (1 + ?r)\<bar> \<le> 2 powi (- 50)" using t by simp
      have "(2::real) powi (- 50) \<le> 1 / 2" by simp
      then have lo: "1 / 2 \<le> ?b" using f r0 by linarith
      then have "round64 (1 + ?r) = Fin ?b" using t by auto
      then have "num_add (Fin 1) (num_div d (Fin 100)) = Fin ?b" by (simp add: Fin 2)
      moreover have "\<bar>?b - (1 + a / 100)\<bar> \<le> 2 powi (- 49)"
      proof -
        have "\<bar>?b - (1 + a / 100)\<bar> \<le> 2 powi (- 50) + 2 powi (- 50)" using e f by linarith
        also have "\<dots> = 2 * (2::real) powi (- 50)" by simp
        also have "\<dots> = 2 powi (- 49)" using powi2_add[of 1 "- 50"] by simp
        finally show ?thesis .
      qed
      moreover have "?b \<le> 12"
      proof -
        have "(2::real) powi (- 50) \<le> 1 / 2" by simp
        then show ?thesis using f e a(2) by linarith
      qed
      ultimately show ?thesis using lo by (intro exI[of _ ?b]) (simp add: Fin)
    qed
  qed
next
  case (Zero t)
  then show ?thesis by (cases t) (simp_all add: sign_of_real_def)
next
  case (Inf t)
  then show ?thesis using assms by (cases t) (simp_all add: num_le_def)
next
  case NaN
  then show ?thesis using assms by (simp add: num_le_def)
qed

lemma powers_apart:
  fixes b b' n :: real
  assumes "0 < b" "b * (1 + 2 powi (- 41)) \<le> b'" "1 \<le> n"
  shows "b powr n * (1 + 2 powi (- 48)) \<le> b' powr n"
proof -
  define c :: real where "c = 1 + 2 powi (- 41)"
  have c: "1 \<le> c" "1 + 2 powi (- 48) \<le> c" by (simp_all add: c_def)
  have "b powr n * (1 + 2 powi (- 48)) \<le> b powr n * c"
    using c(2) by (intro mult_left_mono) simp_all
  also have "c = c powr 1" using c(1) by simp
  also have "b powr n * c powr 1 \<le> b powr n * c powr n"
    using assms(3) c(1) by (intro mult_left_mono powr_mono) simp_all
  also have "b powr n * c powr n = (b * c) powr n" by (simp only: powr_mult)
  also have "\<dots> \<le> b' powr n"
    using assms c(1) unfolding c_def[symmetric] by (intro powr_mono2) simp_all
  finally show ?thesis .
qed

lemma accurate_pow_pow_cr: "accurate_pow pow_cr"
  unfolding accurate_pow_def
proof (intro allI impI)
  fix b e :: real
  let ?x = "b powr e"
  assume b: "0 < b" and lo: "2 powi (- 1022) \<le> ?x" and hi: "?x \<le> 2 powi 1023"
  have "b powi \<lfloor>e\<rfloor> = ?x" if "is_integral e"
  proof -
    have "b powr real_of_int \<lfloor>e\<rfloor> = b powi \<lfloor>e\<rfloor>" using b by (intro powr_real_of_int') simp_all
    then show ?thesis using that by (simp add: is_integral_def)
  qed
  then have p: "pow_cr b e = round64 ?x" by (simp add: pow_cr_def)
  have r1: "round64 (2 powi (- 1022)) = Fin (2 powi (- 1022))" by (rule round64_powi2) simp_all
  have r2: "round64 (2 powi 1023) = Fin (2 powi 1023)" by (rule round64_powi2) simp_all
  have "num_le (round64 (2 powi (- 1022))) (round64 ?x)" using lo by (rule round64_mono)
  then have 1: "num_le (Fin (2 powi (- 1022))) (round64 ?x)" by (simp only: r1)
  have "num_le (round64 ?x) (round64 (2 powi 1023))" using hi by (rule round64_mono)
  then have 2: "num_le (round64 ?x) (Fin (2 powi 1023))" by (simp only: r2)
  obtain y where y: "round64 ?x = Fin y" "2 powi (- 1022) \<le> y"
    using 1 2 by (cases "round64 ?x" rule: rank.cases) (simp_all add: num_le_def del: power_int_minus)
  have x: "0 < ?x" using b by simp
  have ypos: "0 < y" using y(2) powi2_pos[of "- 1022"] by linarith
  define u :: real where "u = 2 powi (- 53)"
  have u: "0 \<le> u" "u \<le> 1 / 2" "2 * u \<le> 2 powi (- 51)" by (simp_all add: u_def)
  have "\<bar>y - ?x\<bar> \<le> 2 powi (- 53) * \<bar>y\<bar>" using y ypos by (intro round64_error) simp_all
  then have err: "\<bar>y - ?x\<bar> \<le> u * y" using ypos by (simp only: u_def abs_of_pos)
  have "u * y \<le> 1 / 2 * y" using u(2) ypos by (intro mult_right_mono) simp_all
  then have "y \<le> 2 * ?x" using err by linarith
  then have "u * y \<le> u * (2 * ?x)" using u(1) by (intro mult_left_mono) simp_all
  also have "\<dots> = 2 * u * ?x" by simp
  also have "\<dots> \<le> 2 powi (- 51) * ?x" using u(3) x by (intro mult_right_mono) simp_all
  finally have "\<bar>y - ?x\<bar> \<le> 2 powi (- 51) * \<bar>?x\<bar>" using err x by (simp only: abs_of_pos)
  then show "close_to (pow_cr b e) ?x" by (simp only: p y(1) close_to_def number.case)
qed

lemma power_factor_apart:
  assumes "accurate_pow pw"
    and "num_le (Zero Plus) (discountRate s)" "num_lt (discountRate s) d'" "num_le d' (Fin 1000)"
    and "real_of (discountRate s) + 1 / 10 ^ 9 \<le> real_of d'"
    and "num_le (Fin 1) (anni s)" "num_le (anni s) (Fin 200)"
  shows "clearly_less (powerFactor (results pw s))
    (powerFactor (results pw (s\<lparr>discountRate := d'\<rparr>)))"
proof -
  let ?d = "discountRate s"
  have dle: "num_le ?d (Fin 1000)"
    using num_le_trans[OF num_lt_imp_le[OF assms(3)] assms(4)] .
  have d'0: "num_le (Zero Plus) d'"
    using num_le_trans[OF assms(2) num_lt_imp_le[OF assms(3)]] .
  obtain b where b: "num_add (Fin 1) (num_div ?d (Fin 100)) = Fin b"
    "\<bar>b - (1 + real_of ?d / 100)\<bar> \<le> 2 powi (- 49)" "1 / 2 \<le> b" "b \<le> 12"
    using base_error[OF assms(2) dle] by blast
  obtain b' where b': "num_add (Fin 1) (num_div d' (Fin 100)) = Fin b'"
    "\<bar>b' - (1 + real_of d' / 100)\<bar> \<le> 2 powi (- 49)" "1 / 2 \<le> b'" "b' \<le> 12"
    using base_error[OF d'0 assms(4)] by blast
  obtain n where n: "anni s = Fin n" "1 \<le> n" "n \<le> 200"
    using assms(6,7) by (cases "anni s" rule: rank.cases) (simp_all add: num_le_def)
  have bpos: "0 < b" "0 < b'" using b(3) b'(3) by linarith+
  have gap: "1 / 10 ^ 11 \<le> real_of d' / 100 - real_of ?d / 100" using assms(5) by simp
  have "b * 2 powi (- 41) \<le> 12 * 2 powi (- 41)" using b(4) by (intro mult_right_mono) simp_all
  also have "\<dots> \<le> 1 / 10 ^ 11 - 2 * 2 powi (- 49)" by simp
  also have "\<dots> \<le> b' - b" using gap b(2) b'(2) by linarith
  finally have sep: "b * (1 + 2 powi (- 41)) \<le> b'" by (simp only: algebra_simps)
  have apart: "b powr n * (1 + 2 powi (- 48)) \<le> b' powr n"
    using bpos(1) sep n(2) by (rule powers_apart)
  have range: "2 powi (- 1022) \<le> c powr n" "c powr n \<le> 2 powi 1023"
    if "1 / 2 \<le> c" "c \<le> 12" for c :: real
  proof -
    have "(2::real) powi (- 1022) \<le> (1 / 2) ^ 200" by (simp add: power_divide)
    also have "\<dots> = (1 / 2) powr 200" by simp
    also have "\<dots> \<le> (1 / 2) powr n" using n(3) by (intro powr_mono') simp_all
    also have "\<dots> \<le> c powr n" using that(1) n(2) by (intro powr_mono2) simp_all
    finally show "2 powi (- 1022) \<le> c powr n" .
    have "c powr n \<le> 16 powr n" using that n(2) by (intro powr_mono2) simp_all
    also have "\<dots> \<le> 16 powr 200" using n(3) by (intro powr_mono) simp_all
    also have "\<dots> \<le> 2 powi 1023" by simp
    finally show "c powr n \<le> 2 powi 1023" .
  qed
  have "close_to (pw b n) (b powr n)"
    using assms(1) bpos(1) range[OF b(3,4)] unfolding accurate_pow_def by blast
  moreover have "close_to (pw b' n) (b' powr n)"
    using assms(1) bpos(2) range[OF b'(3,4)] unfolding accurate_pow_def by blast
  moreover have "0 < b powr n" using bpos(1) by simp
  ultimately have "clearly_less (pw b n) (pw b' n)"
    using apart by (intro close_powers_clearly_less) 
  then show ?thesis using b(1) b'(1) n(1) bpos by (simp add: results_def Let_def)
qed

subsection \<open>The component\<close>










section \<open>Evaluation on concrete inputs\<close>

text \<open>
  A concrete rounding is settled by \<open>round64_eval\<close>: the exponent and the
  53-bit significand are given, and the simplifier checks them.
\<close>

subsection \<open>The rate grid\<close>

lemma round64_02: "round64 (1 / 5) = Fin (3602879701896397 / 18014398509481984)"
  using round64_eval[of "- 3" "1 / 5" 7205759403792794] by (simp add: rhe_def Let_def)
lemma round64_03: "round64 (3 / 10) = Fin (5404319552844595 / 18014398509481984)"
  using round64_eval[of "- 2" "3 / 10" 5404319552844595] by (simp add: rhe_def Let_def)
lemma round64_04: "round64 (2 / 5) = Fin (3602879701896397 / 9007199254740992)"
  using round64_eval[of "- 2" "2 / 5" 7205759403792794] by (simp add: rhe_def Let_def)
lemma round64_05: "round64 (1 / 2) = Fin (1 / 2)"
  using round64_eval[of "- 1" "1 / 2" 4503599627370496] by (simp add: rhe_def Let_def)
lemma round64_06: "round64 (3 / 5) = Fin (5404319552844595 / 9007199254740992)"
  using round64_eval[of "- 1" "3 / 5" 5404319552844595] by (simp add: rhe_def Let_def)
lemma round64_07: "round64 (7 / 10) = Fin (3152519739159347 / 4503599627370496)"
  using round64_eval[of "- 1" "7 / 10" 6305039478318694] by (simp add: rhe_def Let_def)

lemma pct_02: "num_mul (round64 (1 / 5)) (Fin 100) = Fin 20"
  using round64_eval[of 4 "90071992547409925 / 4503599627370496" 5629499534213120]
  by (simp add: round64_02 rhe_def Let_def)
lemma pct_03: "num_mul (round64 (3 / 10)) (Fin 100) = Fin 30"
  using round64_eval[of 4 "135107988821114875 / 4503599627370496" 8444249301319680]
  by (simp add: round64_03 rhe_def Let_def)
lemma pct_04: "num_mul (round64 (2 / 5)) (Fin 100) = Fin 40"
  using round64_eval[of 5 "90071992547409925 / 2251799813685248" 5629499534213120]
  by (simp add: round64_04 rhe_def Let_def)
lemma pct_05: "num_mul (round64 (1 / 2)) (Fin 100) = Fin 50"
  using round64_eval[of 5 "50" 7036874417766400]
  by (simp add: round64_05 rhe_def Let_def)
lemma pct_06: "num_mul (round64 (3 / 5)) (Fin 100) = Fin 60"
  using round64_eval[of 5 "135107988821114875 / 2251799813685248" 8444249301319680]
  by (simp add: round64_06 rhe_def Let_def)
lemma pct_07: "num_mul (round64 (7 / 10)) (Fin 100) = Fin 70"
  using round64_eval[of 6 "78812993478983675 / 1125899906842624" 4925812092436480]
  by (simp add: round64_07 rhe_def Let_def)

lemma toFixed0_small:
  "toFixed 0 (Fin 20) = Inr ''20''" "toFixed 0 (Fin 30) = Inr ''30''"
  "toFixed 0 (Fin 40) = Inr ''40''" "toFixed 0 (Fin 50) = Inr ''50''"
  "toFixed 0 (Fin 60) = Inr ''60''" "toFixed 0 (Fin 70) = Inr ''70''"
  by (simp_all add: toFixed_def fixed_digits_def decimal.simps digit_char_def)

lemma sensitivityData_points:
  "sensitivityData pw s =
     Inr [\<lparr>dr = ''20%'', valuation = valuationInMillions pw s (round64 (2 / 10))\<rparr>,
          \<lparr>dr = ''30%'', valuation = valuationInMillions pw s (round64 (3 / 10))\<rparr>,
          \<lparr>dr = ''40%'', valuation = valuationInMillions pw s (round64 (4 / 10))\<rparr>,
          \<lparr>dr = ''50%'', valuation = valuationInMillions pw s (round64 (5 / 10))\<rparr>,
          \<lparr>dr = ''60%'', valuation = valuationInMillions pw s (round64 (6 / 10))\<rparr>,
          \<lparr>dr = ''70%'', valuation = valuationInMillions pw s (round64 (7 / 10))\<rparr>]"
  by (simp add: sensitivityData_def Let_def drRates_def sensitivityPoint_def
      valuationInMillions_def pct_02 pct_03 pct_04 pct_05 pct_06 pct_07 toFixed0_small)

lemma drRates_sorted: "sorted_wrt num_lt drRates"
  by (simp add: drRates_def num_lt_def round64_02 round64_03 round64_04 round64_05
      round64_06 round64_07)

lemma sweep_fields:
  assumes "i < length drRates"
  shows "\<exists>pts. sensitivityData pw s = Inr pts \<and> length pts = length drRates
    \<and> valuation (pts ! i) = valuationInMillions pw s (drRates ! i)"
proof -
  from assms have "i < 6" by (simp add: drRates_def)
  then consider "i = 0" | "i = 1" | "i = 2" | "i = 3" | "i = 4" | "i = 5" by linarith
  then show ?thesis
    by cases (simp_all add: sensitivityData_points drRates_def)
qed

lemma all_less_6: "(\<forall>i<6::nat. P i) \<longleftrightarrow> P 0 \<and> P 1 \<and> P 2 \<and> P 3 \<and> P 4 \<and> P 5"
proof
  assume *: "P 0 \<and> P 1 \<and> P 2 \<and> P 3 \<and> P 4 \<and> P 5"
  show "\<forall>i<6. P i"
  proof (intro allI impI)
    fix i :: nat assume "i < 6"
    then consider "i = 0" | "i = 1" | "i = 2" | "i = 3" | "i = 4" | "i = 5" by linarith
    then show "P i" using * by cases simp_all
  qed
qed simp

lemma base_02: "num_add (Fin 1) (Fin (3602879701896397 / 18014398509481984)) = Fin (5404319552844595 / 4503599627370496)"
  using round64_eval[of 0 "21617278211378381 / 18014398509481984" 5404319552844595]
  by (simp add: rhe_def Let_def)

lemma base_03: "num_add (Fin 1) (Fin (5404319552844595 / 18014398509481984)) = Fin (5854679515581645 / 4503599627370496)"
  using round64_eval[of 0 "23418718062326579 / 18014398509481984" 5854679515581645]
  by (simp add: rhe_def Let_def)

lemma base_04: "num_add (Fin 1) (Fin (3602879701896397 / 9007199254740992)) = Fin (3152519739159347 / 2251799813685248)"
  using round64_eval[of 0 "12610078956637389 / 9007199254740992" 6305039478318694]
  by (simp add: rhe_def Let_def)

lemma base_06: "num_add (Fin 1) (Fin (5404319552844595 / 9007199254740992)) = Fin (3602879701896397 / 2251799813685248)"
  using round64_eval[of 0 "14411518807585587 / 9007199254740992" 7205759403792794]
  by (simp add: rhe_def Let_def)

lemma base_07: "num_add (Fin 1) (Fin (3152519739159347 / 4503599627370496)) = Fin (7656119366529843 / 4503599627370496)"
  using round64_eval[of 0 "7656119366529843 / 4503599627370496" 7656119366529843]
  by (simp add: rhe_def Let_def)

subsection \<open>The initial state and its variants\<close>

text \<open>
  The operations of \<open>results\<close> on the initial state, step by step, and on
  the variants the claims are tried on. The equations that round are taken out
  of the simplifier here, so that each step is one of these facts.
\<close>

lemmas rounded_ops = num_mul.simps(13) num_div.simps(13) num_add.simps(13)

lemma revenue_initial: "num_mul (Fin 50) (Fin 1000000) = Fin 50000000"
  using round64_eval[of 25 "50 * 1000000" 6710886400000000]
  by (simp add: rhe_def Let_def)

lemma investment_initial: "num_mul (Fin 10) (Fin 1000000) = Fin 10000000"
  using round64_eval[of 23 "10 * 1000000" 5368709120000000]
  by (simp add: rhe_def Let_def)

lemma rate_45: "num_div (Fin 45) (Fin 100) = Fin (8106479329266893 / 18014398509481984)"
  using round64_eval[of "- 2" "45 / 100" 8106479329266893]
  by (simp add: rhe_def Let_def)

lemma exit_initial: "num_mul (Fin 50000000) (Fin 6) = Fin 300000000"
  using round64_eval[of 28 "50000000 * 6" 5033164800000000]
  by (simp add: rhe_def Let_def)

lemma base_45: "num_add (Fin 1) (Fin (8106479329266893 / 18014398509481984)) = Fin (6530219459687219 / 4503599627370496)"
  using round64_eval[of 0 "1 + (8106479329266893 / 18014398509481984)" 6530219459687219]
  by (simp add: rhe_def Let_def)

lemma power_45: "pow_cr (6530219459687219 / 4503599627370496) 5 = Fin (7216718983854743 / 1125899906842624)"
  using round64_eval[of 2 "(6530219459687219 / 4503599627370496) ^ 5" 7216718983854743]
  by (simp add: pow_cr_def is_integral_def rhe_def Let_def power_divide)

lemma valuation_initial: "num_div (Fin 300000000) (Fin (7216718983854743 / 1125899906842624)) = Fin (6281901559000913 / 134217728)"
  using round64_eval[of 25 "300000000 / (7216718983854743 / 1125899906842624)" 6281901559000913]
  by (simp add: rhe_def Let_def)

lemma premoney_initial: "num_sub (Fin (6281901559000913 / 134217728)) (Fin 10000000) = Fin (4939724279000913 / 134217728)"
  using round64_eval[of 25 "(6281901559000913 / 134217728) - 10000000" 4939724279000913]
  by (simp add: rhe_def Let_def num_sub_def)

lemma ownership_initial: "num_div (Fin 10000000) (Fin (6281901559000913 / 134217728)) = Fin (962229197847299 / 4503599627370496)"
  using round64_eval[of "- 3" "10000000 / (6281901559000913 / 134217728)" 7697833582778392]
  by (simp add: rhe_def Let_def)

lemma payout_initial: "num_mul (Fin 300000000) (Fin (962229197847299 / 4503599627370496)) = Fin (4301499714764799 / 67108864)"
  using round64_eval[of 25 "300000000 * (962229197847299 / 4503599627370496)" 8602999429529598]
  by (simp add: rhe_def Let_def)

lemma roi_initial: "num_div (Fin (4301499714764799 / 67108864)) (Fin 10000000) = Fin (3608359491927371 / 562949953421312)"
  using round64_eval[of 2 "(4301499714764799 / 67108864) / 10000000" 7216718983854742]
  by (simp add: rhe_def Let_def)

lemma profit_initial: "num_sub (Fin (4301499714764799 / 67108864)) (Fin 10000000) = Fin (3630411074764799 / 67108864)"
  using round64_eval[of 25 "(4301499714764799 / 67108864) - 10000000" 7260822149529598]
  by (simp add: rhe_def Let_def num_sub_def)

lemma rate_50: "num_div (Fin 50) (Fin 100) = Fin (1 / 2)"
  using round64_eval[of "- 1" "50 / 100" 4503599627370496]
  by (simp add: rhe_def Let_def)

lemma base_50: "num_add (Fin 1) (Fin (1 / 2)) = Fin (3 / 2)"
  using round64_eval[of 0 "1 + (1 / 2)" 6755399441055744]
  by (simp add: rhe_def Let_def)

lemma power_50: "pow_cr (3 / 2) 5 = Fin (243 / 32)"
  using round64_eval[of 2 "(3 / 2) ^ 5" 8549802417586176]
  by (simp add: pow_cr_def is_integral_def rhe_def Let_def power_divide)

lemma valuation_50: "num_div (Fin 300000000) (Fin (243 / 32)) = Fin (5302428760493827 / 134217728)"
  using round64_eval[of 25 "300000000 / (243 / 32)" 5302428760493827]
  by (simp add: rhe_def Let_def)

lemma ownership_50: "num_div (Fin 10000000) (Fin (5302428760493827 / 134217728)) = Fin (4559894622712627 / 18014398509481984)"
  using round64_eval[of "- 2" "10000000 / (5302428760493827 / 134217728)" 4559894622712627]
  by (simp add: rhe_def Let_def)

lemma rate_55: "num_div (Fin 55) (Fin 100) = Fin (2476979795053773 / 4503599627370496)"
  using round64_eval[of "- 1" "55 / 100" 4953959590107546]
  by (simp add: rhe_def Let_def)

lemma rate_55_next: "num_div (Fin (7740561859543041 / 140737488355328)) (Fin 100) = Fin (2476979795053773 / 4503599627370496)"
  using round64_eval[of "- 1" "(7740561859543041 / 140737488355328) / 100" 4953959590107546]
  by (simp add: rhe_def Let_def)

lemma revenue_negative: "num_mul (Fin (- 50)) (Fin 1000000) = Fin (- 50000000)"
  using round64_eval_neg[of 25 "(- 50) * 1000000" 6710886400000000]
  by (simp add: rhe_def Let_def)

lemma exit_negative: "num_mul (Fin (- 50000000)) (Fin 6) = Fin (- 300000000)"
  using round64_eval_neg[of 28 "(- 50000000) * 6" 5033164800000000]
  by (simp add: rhe_def Let_def)

lemma valuation_negative: "num_div (Fin (- 300000000)) (Fin (7216718983854743 / 1125899906842624)) = Fin (- (6281901559000913 / 134217728))"
  using round64_eval_neg[of 25 "(- 300000000) / (7216718983854743 / 1125899906842624)" 6281901559000913]
  by (simp add: rhe_def Let_def)

lemma rate_minus_100: "num_div (Fin (- 100)) (Fin 100) = Fin (- 1)"
  using round64_eval_neg[of 0 "(- 100) / 100" 4503599627370496]
  by (simp add: rhe_def Let_def)

lemma one_minus_one: "num_add (Fin 1) (Fin (- 1)) = Zero Plus"
  by (simp add: round64_zero)

lemma revenue_98: "num_mul (Fin 98) (Fin 1) = Fin 98"
  using round64_eval[of 6 "98 * 1" 6896136929411072]
  by (simp add: rhe_def Let_def)

lemma investment_one: "num_mul (Fin 1) (Fin 1) = Fin 1"
  using round64_eval[of 0 "1 * 1" 4503599627370496]
  by (simp add: rhe_def Let_def)

lemma rate_100: "num_div (Fin 100) (Fin 100) = Fin 1"
  using round64_eval[of 0 "100 / 100" 4503599627370496]
  by (simp add: rhe_def Let_def)

lemma base_100: "num_add (Fin 1) (Fin 1) = Fin 2"
  using round64_eval[of 1 "1 + 1" 4503599627370496]
  by (simp add: rhe_def Let_def)

lemma power_100: "pow_cr (2) 1 = Fin 2"
  using round64_eval[of 1 "2 ^ 1" 4503599627370496]
  by (simp add: pow_cr_def is_integral_def rhe_def Let_def power_divide)

lemma valuation_98: "num_div (Fin 98) (Fin 2) = Fin 49"
  using round64_eval[of 5 "98 / 2" 6896136929411072]
  by (simp add: rhe_def Let_def)

lemma ownership_98: "num_div (Fin 1) (Fin 49) = Fin (5882252574524729 / 288230376151711744)"
  using round64_eval[of "- 6" "1 / 49" 5882252574524729]
  by (simp add: rhe_def Let_def)

lemma payout_98: "num_mul (Fin 98) (Fin (5882252574524729 / 288230376151711744)) = Fin (9007199254740991 / 4503599627370496)"
  using round64_eval[of 0 "98 * (5882252574524729 / 288230376151711744)" 9007199254740991]
  by (simp add: rhe_def Let_def)

lemma roi_98: "num_div (Fin (9007199254740991 / 4503599627370496)) (Fin 1) = Fin (9007199254740991 / 4503599627370496)"
  using round64_eval[of 0 "(9007199254740991 / 4503599627370496) / 1" 9007199254740991]
  by (simp add: rhe_def Let_def)

lemma results_initial:
  "results pow_cr initialState =
     \<lparr>exitValue = Fin 300000000,
      valuationToday = Fin (6281901559000913 / 134217728),
      preMoneyVal = Fin (4939724279000913 / 134217728),
      vcOwnership = Fin (962229197847299 / 4503599627370496),
      roiAtteso = Fin (3608359491927371 / 562949953421312),
      profitto = Fin (3630411074764799 / 67108864),
      powerFactor = Fin (7216718983854743 / 1125899906842624)\<rparr>"
  by (simp add: results_def Let_def initialState_def MILLIONS_def
      revenue_initial investment_initial rate_45 exit_initial base_45 power_45 valuation_initial premoney_initial ownership_initial
      payout_initial roi_initial profit_initial del: rounded_ops)

lemma results_rate50:
  "valuationToday (results pow_cr (initialState\<lparr>discountRate := Fin 50\<rparr>))
     = Fin (5302428760493827 / 134217728)"
  "vcOwnership (results pow_cr (initialState\<lparr>discountRate := Fin 50\<rparr>))
     = Fin (4559894622712627 / 18014398509481984)"
  by (simp_all add: results_def Let_def initialState_def MILLIONS_def
      revenue_initial investment_initial exit_initial rate_50 base_50 power_50 valuation_50 ownership_50
      del: rounded_ops)

text \<open>
  Closeness admits more than the correctly rounded power. At the base 1.45 and
  the exponent 3 the real power lies between the binary64 values
  3.0486249999999995 and 3.048625, and both are close to it.
\<close>

lemma close_to_neighbours:
  "close_to (Fin (6864893206996189 / 2251799813685248))
     ((6530219459687219 / 4503599627370496) powr 3)"
  "close_to (Fin (1716223301749047 / 562949953421312))
     ((6530219459687219 / 4503599627370496) powr 3)"
  by (simp_all add: close_to_def power_divide)

lemma results_rate50_factor:
  "exitValue (results pow_cr (initialState\<lparr>discountRate := Fin 50\<rparr>)) = Fin 300000000"
  "powerFactor (results pow_cr (initialState\<lparr>discountRate := Fin 50\<rparr>)) = Fin (243 / 32)"
  by (simp_all add: results_def Let_def initialState_def MILLIONS_def
      revenue_initial exit_initial rate_50 base_50 power_50 del: rounded_ops)

lemma valuation_negative_50: "num_div (Fin (- 300000000)) (Fin (243 / 32)) = Fin (- (5302428760493827 / 134217728))"
  using round64_eval_neg[of 25 "(- 300000000) / (243 / 32)" 5302428760493827]
  by (simp add: rhe_def Let_def)

lemma rate_80: "num_div (Fin 80) (Fin 100) = Fin (3602879701896397 / 4503599627370496)"
  using round64_eval[of "- 1" "80 / 100" 7205759403792794]
  by (simp add: rhe_def Let_def)

lemma rate_80_next: "num_div (Fin (5629499534213121 / 70368744177664)) (Fin 100) = Fin (7205759403792795 / 9007199254740992)"
  using round64_eval[of "- 1" "(5629499534213121 / 70368744177664) / 100" 7205759403792795]
  by (simp add: rhe_def Let_def)

lemma base_80: "num_add (Fin 1) (Fin (3602879701896397 / 4503599627370496)) = Fin (8106479329266893 / 4503599627370496)"
  using round64_eval[of 0 "1 + (3602879701896397 / 4503599627370496)" 8106479329266893]
  by (simp add: rhe_def Let_def)

lemma base_80_next: "num_add (Fin 1) (Fin (7205759403792795 / 9007199254740992)) = Fin (4053239664633447 / 2251799813685248)"
  using round64_eval[of 0 "1 + (7205759403792795 / 9007199254740992)" 8106479329266894]
  by (simp add: rhe_def Let_def)

lemma power_80: "pow_cr (8106479329266893 / 4503599627370496) 1 = Fin (8106479329266893 / 4503599627370496)"
  using round64_eval[of 0 "(8106479329266893 / 4503599627370496) ^ 1" 8106479329266893]
  by (simp add: pow_cr_def is_integral_def rhe_def Let_def power_divide)

lemma power_80_next: "pow_cr (4053239664633447 / 2251799813685248) 1 = Fin (4053239664633447 / 2251799813685248)"
  using round64_eval[of 0 "(4053239664633447 / 2251799813685248) ^ 1" 8106479329266894]
  by (simp add: pow_cr_def is_integral_def rhe_def Let_def power_divide)

lemma valuation_80: "num_div (Fin 300000000) (Fin (8106479329266893 / 4503599627370496)) = Fin (5592405333333333 / 33554432)"
  using round64_eval[of 27 "300000000 / (8106479329266893 / 4503599627370496)" 5592405333333333]
  by (simp add: rhe_def Let_def)

lemma valuation_80_next: "num_div (Fin 300000000) (Fin (4053239664633447 / 2251799813685248)) = Fin (5592405333333333 / 33554432)"
  using round64_eval[of 27 "300000000 / (4053239664633447 / 2251799813685248)" 5592405333333333]
  by (simp add: rhe_def Let_def)

lemma revenue_overflow: "num_mul (Fin (2 ^ 1023)) (Fin 1000000) = Inf Plus"
proof -
  have "huge \<le> 2 ^ 1023 * 1000000" by (simp add: huge_def)
  then show ?thesis using round64_overflow[of "2 ^ 1023 * 1000000"] by (simp only: num_mul.simps)
qed

lemma rate_minus_200: "num_div (Fin (- 200)) (Fin 100) = Fin (- 2)"
  using round64_eval_neg[of 1 "(- 200) / 100" 4503599627370496]
  by (simp add: rhe_def Let_def)

lemma one_minus_two: "num_add (Fin 1) (Fin (- 2)) = Fin (- 1)"
  by (simp add: round64_minus_one)

lemma grid_bases:
  "map (num_add (Fin 1)) drRates =
     [Fin (5404319552844595 / 4503599627370496), Fin (5854679515581645 / 4503599627370496),
      Fin (3152519739159347 / 2251799813685248), Fin (3 / 2),
      Fin (3602879701896397 / 2251799813685248), Fin (7656119366529843 / 4503599627370496)]"
  by (simp add: drRates_def round64_02 round64_03 round64_04 round64_05 round64_06 round64_07
      base_02 base_03 base_04 base_50 base_06 base_07 del: rounded_ops)

lemma power_underflow:
  fixes b :: real
  assumes "2 \<le> b ^ 4"
  shows "pow_cr b (- 5000) = Zero Plus"
proof -
  have b0: "b \<noteq> 0" using assms by (auto simp: zero_power)
  have "(2::real) ^ 1250 \<le> (b ^ 4) ^ 1250" using assms by (intro power_mono) simp_all
  also have "(b ^ 4) ^ 1250 = b ^ 5000" by (simp add: power_mult[symmetric])
  finally have 1: "(2::real) ^ 1250 \<le> b ^ 5000" .
  have "(2::real) ^ 1075 \<le> 2 ^ 1250" by (intro power_increasing) simp_all
  with 1 have 2: "(2::real) ^ 1075 \<le> b ^ 5000" by linarith
  have p: "0 < b ^ 5000" using b0 by (simp add: zero_less_power_eq)
  have "inverse (b ^ 5000) \<le> inverse ((2::real) ^ 1075)"
    using 2 by (intro le_imp_inverse_le) simp_all
  moreover have "b powi (- 5000) = inverse (b ^ 5000)"
    by (simp add: power_int_minus)
  moreover have "(2::real) powi (- 1075) = inverse (2 ^ 1075)"
    by (simp add: power_int_minus)
  ultimately have le: "b powi (- 5000) \<le> 2 powi (- 1075)" by (simp only:)
  have pos: "0 < b powi (- 5000)" using p by (simp add: power_int_minus)
  have "is_integral (- 5000)" by (simp add: is_integral_def)
  moreover have "\<lfloor>- 5000 :: real\<rfloor> = - 5000" by simp
  ultimately have "pow_cr b (- 5000) = round64 (b powi (- 5000))"
    by (simp only: pow_cr_def if_True)
  then show ?thesis using round64_underflow[OF pos le] by simp
qed

lemma grid_powers_underflow:
  "\<forall>i<6. is_zero (Math_pow pow_cr (num_add (Fin 1) (drRates ! i)) (Fin (- 5000)))"
proof -
  have "\<forall>i<6. is_zero (Math_pow pow_cr (map (num_add (Fin 1)) drRates ! i) (Fin (- 5000)))"
    unfolding grid_bases all_less_6
    by (simp add: power_underflow power_divide)
  moreover have "length drRates = 6" by (simp add: drRates_def)
  ultimately show ?thesis by (simp del: rounded_ops)
qed

subsection \<open>Amounts to format\<close>

lemma millions_1500000: "num_div (Fin 1500000) (Fin 1000000) = Fin (3 / 2)"
  using round64_eval[of 0 "1500000 / 1000000" 6755399441055744]
  by (simp add: rhe_def Let_def)

lemma thousands_2500: "num_div (Fin 2500) (Fin 1000) = Fin (5 / 2)"
  using round64_eval[of 1 "2500 / 1000" 5629499534213120]
  by (simp add: rhe_def Let_def)

lemma thousands_1000: "num_div (Fin 1000) (Fin 1000) = Fin 1"
  using round64_eval[of 0 "1000 / 1000" 4503599627370496]
  by (simp add: rhe_def Let_def)

lemma millions_1000000: "num_div (Fin 1000000) (Fin 1000000) = Fin 1"
  using round64_eval[of 0 "1000000 / 1000000" 4503599627370496]
  by (simp add: rhe_def Let_def)

lemma thousands_999999: "num_div (Fin 999999) (Fin 1000) = Fin (4398042113057489 / 4398046511104)"
  using round64_eval[of 9 "999999 / 1000" 8796084226114978]
  by (simp add: rhe_def Let_def)

lemma millions_1e27: "num_div (Fin 1000000000000000013287555072) (Fin 1000000) = Fin 1000000000000000000000"
  using round64_eval[of 69 "1000000000000000013287555072 / 1000000" 7629394531250000]
  by (simp add: rhe_def Let_def)

lemma round64_1000: "round64 1000 = Fin 1000"
  using round64_eval[of 9 1000 8796093022208000] by (simp add: rhe_def Let_def)

lemma round64_minus_1000: "round64 (- 1000) = Fin (- 1000)"
  using round64_minus[of 1000] by (simp add: round64_1000)

lemma round64_1e20: "round64 100000000000000000000 = Fin 100000000000000000000"
  using round64_eval[of 66 "100000000000000000000" 6103515625000000]
  by (simp add: rhe_def Let_def)

lemma round64_1e21: "round64 1000000000000000000000 = Fin 1000000000000000000000"
  using round64_eval[of 69 "1000000000000000000000" 7629394531250000]
  by (simp add: rhe_def Let_def)

lemma round64_2e21: "round64 2000000000000000000000 = Fin 2000000000000000000000"
  using round64_eval[of 70 "2000000000000000000000" 7629394531250000]
  by (simp add: rhe_def Let_def)

lemma thousands_small:
  assumes "\<bar>v\<bar> < 1000000"
  shows "num_lt (Math_abs (round64 (v / 1000))) (Fin (10 ^ 21))"
proof -
  have "num_le (round64 (v / 1000)) (round64 1000)" "num_le (round64 (- 1000)) (round64 (v / 1000))"
    using assms by (intro round64_mono; simp)+
  then show ?thesis
    by (cases "round64 (v / 1000)")
      (auto simp: round64_1000 round64_minus_1000 num_le_def num_lt_def rank_Inf split: if_splits)
qed

lemma millions_small:
  assumes "\<bar>v\<bar> \<le> 10 ^ 26"
  shows "num_lt (Math_abs (num_div (Fin v) (Fin 1000000))) (Fin (10 ^ 21))"
proof -
  have "v / 1000000 \<le> 100000000000000000000" "- 100000000000000000000 \<le> v / 1000000"
    using assms by simp_all
  then have "num_le (round64 (v / 1000000)) (round64 100000000000000000000)"
    "num_le (round64 (- 100000000000000000000)) (round64 (v / 1000000))"
    by (intro round64_mono; simp)+
  moreover have "round64 (- 100000000000000000000) = Fin (- 100000000000000000000)"
    using round64_minus[of 100000000000000000000]
    by (simp add: round64_1e20)
  ultimately show ?thesis
    by (cases "round64 (v / 1000000)")
      (auto simp: round64_1e20 num_le_def num_lt_def rank_Inf
        split: if_splits)
qed

lemma decimal_22: "decimal 1000000000000000000000 = ''1000000000000000000000''"
  by (simp add: decimal.simps digit_char_def)

lemma shortest_1e21: "shortest 1000000000000000000000 22 1 = (1, 22)"
  by (subst shortest.simps)
    (simp add: Let_def round64_1e21 round64_2e21)

lemma toString_large_1e21: "toString_large 1000000000000000000000 = ''1e+21''"
proof -
  have "length (decimal (nat \<lfloor>1000000000000000000000 :: real\<rfloor>)) = 22"
    by (simp add: decimal_22)
  then have "toString_large 1000000000000000000000 =
      (let (s, n) = shortest 1000000000000000000000 22 1; ds = decimal s
       in (if length ds = 1 then ds else take 1 ds @ ''.'' @ drop 1 ds)
          @ ''e+'' @ decimal (n - 1))"
    by (simp only: toString_large_def)
  also have "\<dots> = ''1e+21''"
    by (simp only: shortest_1e21) (simp add: decimal.simps digit_char_def)
  finally show ?thesis .
qed

section \<open>The claims\<close>

text \<open>
  In the statements \<open>results\<close> is the spec's computeResults and
  \<open>sensitivityData\<close> its computeSensitivity; \<open>pw\<close> is the host's approximation
  of the power, any function unless a hypothesis names a property of it, and
  \<open>pow_cr\<close> where a concrete input is evaluated.
\<close>

subsection \<open>C1: the seven derived fields\<close>

text \<open>
  C1. For every input, \<open>results\<close> (the spec's computeResults) returns the seven
  derived fields by the formulas of the data model, each later field computed
  from the earlier ones: the exit value is (revenue times its unit scale) times
  the multiple; the power factor is (1 + rate / 100) to the power of the years;
  the valuation today is the exit value over the power factor; the pre-money
  valuation is the valuation today minus the scaled investment; the ownership is
  the scaled investment over the valuation today; the ROI multiple is (exit value
  times ownership) over the scaled investment; the profit is (exit value times
  ownership) minus the scaled investment. Each unit scale enters exactly once,
  as the factor of its own amount.
\<close>

theorem C1_results_formulas:
  "exitValue (results pw s) = num_mul (num_mul (ricaviY5 s) (ricaviUnita s)) (multiplo s)
   \<and> powerFactor (results pw s) =
       Math_pow pw (num_add (Fin 1) (num_div (discountRate s) (Fin 100))) (anni s)
   \<and> valuationToday (results pw s) =
       num_div (exitValue (results pw s)) (powerFactor (results pw s))
   \<and> preMoneyVal (results pw s) =
       num_sub (valuationToday (results pw s)) (num_mul (investimento s) (investUnita s))
   \<and> vcOwnership (results pw s) =
       num_div (num_mul (investimento s) (investUnita s)) (valuationToday (results pw s))
   \<and> roiAtteso (results pw s) =
       num_div (num_mul (exitValue (results pw s)) (vcOwnership (results pw s)))
         (num_mul (investimento s) (investUnita s))
   \<and> profitto (results pw s) =
       num_sub (num_mul (exitValue (results pw s)) (vcOwnership (results pw s)))
         (num_mul (investimento s) (investUnita s))"
  by (simp add: results_def Let_def)

subsection \<open>C2: the sensitivity sweep\<close>

text \<open>
  C2. For every input, \<open>sensitivityData\<close> (the spec's computeSensitivity) over the
  grid 0.2, 0.3, 0.4, 0.5, 0.6, 0.7 returns exactly six points, one per grid
  entry in ascending rate order. The valuation of the point for the rate \<open>r\<close> is
  the exit value over \<open>(1 + r)\<close> to the power of the years, over 1,000,000,
  with no rounding to digits applied to it; its label is the rate as a
  whole-number percent string.
\<close>

theorem C2_sensitivity_points:
  "sensitivityData pw s =
     Inr [\<lparr>dr = ''20%'', valuation = valuationInMillions pw s (round64 (2 / 10))\<rparr>,
          \<lparr>dr = ''30%'', valuation = valuationInMillions pw s (round64 (3 / 10))\<rparr>,
          \<lparr>dr = ''40%'', valuation = valuationInMillions pw s (round64 (4 / 10))\<rparr>,
          \<lparr>dr = ''50%'', valuation = valuationInMillions pw s (round64 (5 / 10))\<rparr>,
          \<lparr>dr = ''60%'', valuation = valuationInMillions pw s (round64 (6 / 10))\<rparr>,
          \<lparr>dr = ''70%'', valuation = valuationInMillions pw s (round64 (7 / 10))\<rparr>]
   \<and> sorted_wrt num_lt drRates"
  using sensitivityData_points drRates_sorted by simp

subsection \<open>C3: the sweep agrees with the results at a grid rate\<close>




subsection \<open>C4: a larger discount rate\<close>

text \<open>
  C4 as stated fails: a strictly larger rate need not give a strictly smaller
  valuation. With a revenue of zero the valuation today is zero at 45 and at 50
  percent alike. With a revenue of \<open>-50\<close> millions it rises, from about \<open>-46.8\<close> to
  about \<open>-39.5\<close> millions. At the rates 55 and the next binary64 value above 55
  the two quotients by 100 round to the same value, so every derived field is
  the same. And with one year to exit, at the rates 80 and the next binary64
  value above 80 the power factors differ, by one unit in the last place, and
  the two quotients of the exit value round to the same valuation.
\<close>

theorem C4_counterexample:
  "num_lt (discountRate (initialState\<lparr>ricaviY5 := Zero Plus\<rparr>)) (Fin 50)
   \<and> valuationToday (results pow_cr (initialState\<lparr>ricaviY5 := Zero Plus\<rparr>)) = Zero Plus
   \<and> valuationToday (results pow_cr (initialState\<lparr>ricaviY5 := Zero Plus, discountRate := Fin 50\<rparr>))
       = Zero Plus
   \<and> \<not> num_lt
         (valuationToday
           (results pow_cr (initialState\<lparr>ricaviY5 := Zero Plus, discountRate := Fin 50\<rparr>)))
         (valuationToday (results pow_cr (initialState\<lparr>ricaviY5 := Zero Plus\<rparr>)))
   \<and> num_lt (discountRate (initialState\<lparr>ricaviY5 := Fin (- 50)\<rparr>)) (Fin 50)
   \<and> valuationToday (results pow_cr (initialState\<lparr>ricaviY5 := Fin (- 50)\<rparr>))
       = Fin (- (6281901559000913 / 134217728))
   \<and> valuationToday (results pow_cr (initialState\<lparr>ricaviY5 := Fin (- 50), discountRate := Fin 50\<rparr>))
       = Fin (- (5302428760493827 / 134217728))
   \<and> \<not> num_le
         (valuationToday
           (results pow_cr (initialState\<lparr>ricaviY5 := Fin (- 50), discountRate := Fin 50\<rparr>)))
         (valuationToday (results pow_cr (initialState\<lparr>ricaviY5 := Fin (- 50)\<rparr>)))
   \<and> num_lt (Fin 55) (Fin (7740561859543041 / 140737488355328))
   \<and> \<not> num_lt
         (valuationToday
           (results pow_cr
             (initialState\<lparr>discountRate := Fin (7740561859543041 / 140737488355328)\<rparr>)))
         (valuationToday (results pow_cr (initialState\<lparr>discountRate := Fin 55\<rparr>)))
   \<and> num_lt (Fin 80) (Fin (5629499534213121 / 70368744177664))
   \<and> powerFactor (results pow_cr (initialState\<lparr>discountRate := Fin 80, anni := Fin 1\<rparr>))
       = Fin (8106479329266893 / 4503599627370496)
   \<and> powerFactor
        (results pow_cr
          (initialState\<lparr>discountRate := Fin (5629499534213121 / 70368744177664), anni := Fin 1\<rparr>))
       = Fin (8106479329266894 / 4503599627370496)
   \<and> valuationToday (results pow_cr (initialState\<lparr>discountRate := Fin 80, anni := Fin 1\<rparr>))
       = Fin (5592405333333333 / 33554432)
   \<and> valuationToday
        (results pow_cr
          (initialState\<lparr>discountRate := Fin (5629499534213121 / 70368744177664), anni := Fin 1\<rparr>))
       = Fin (5592405333333333 / 33554432)
   \<and> \<not> num_lt
         (valuationToday
           (results pow_cr
             (initialState\<lparr>discountRate := Fin (5629499534213121 / 70368744177664),
                anni := Fin 1\<rparr>)))
         (valuationToday (results pow_cr (initialState\<lparr>discountRate := Fin 80, anni := Fin 1\<rparr>)))"
  by (simp add: results_def Let_def initialState_def MILLIONS_def num_lt_def num_le_def
      sign_of_real_def rate_45 base_45 power_45 rate_50 base_50 power_50 rate_55 rate_55_next
      revenue_initial exit_initial revenue_negative exit_negative valuation_negative
      valuation_negative_50 rate_80 rate_80_next base_80 base_80_next power_80 power_80_next
      valuation_80 valuation_80_next
      del: rounded_ops)

text \<open>
  C4, amended. Take two inputs that differ only in the discount rate, the second
  rate strictly larger, with the results \<open>r\<close> and \<open>r'\<close>.

  Strictly: when both rates lie between 0 and 1000 and are at least \<open>10 ^ -9\<close>
  apart, the years lie between 1 and 200, the host's power is close to the real
  power, the exit value is finite and above zero, and the valuation today of
  \<open>r'\<close> is in the normal range, the valuation today of \<open>r'\<close> is strictly smaller
  than that of \<open>r\<close>; and when the scaled investment is finite and above zero and
  the ownership of \<open>r\<close> is in the normal range, the ownership of \<open>r'\<close> is strictly
  larger.

  Not strictly: when the first rate is at least \<open>-100\<close>, the years are finite
  and above zero, the host's power is monotone in its base, the exit value is
  zero or above, and neither valuation today is NaN, the valuation today of \<open>r'\<close>
  is not larger than that of \<open>r\<close>; and when the scaled investment is finite and
  above zero, the ownership of \<open>r'\<close> is not smaller.

  For every host's power the two hold in terms of the power factors: the first
  when the power factor of \<open>r'\<close> is clearly larger than that of \<open>r\<close>, the second
  when it is not smaller, both without a minus sign.
\<close>

theorem C4_valuation_antitone:
  assumes "r = results pw s" and "r' = results pw (s\<lparr>discountRate := d'\<rparr>)"
  shows
    "(accurate_pow pw
         \<and> num_le (Zero Plus) (discountRate s) \<and> num_lt (discountRate s) d'
         \<and> num_le d' (Fin 1000) \<and> real_of (discountRate s) + 1 / 10 ^ 9 \<le> real_of d'
         \<and> num_le (Fin 1) (anni s) \<and> num_le (anni s) (Fin 200)
         \<and> pos_finite (exitValue r) \<and> normal_finite (valuationToday r')
      \<longrightarrow> num_lt (valuationToday r') (valuationToday r)
        \<and> (pos_finite (num_mul (investimento s) (investUnita s)) \<and> normal_finite (vcOwnership r)
            \<longrightarrow> num_lt (vcOwnership r) (vcOwnership r')))
     \<and> (mono_pow pw
         \<and> num_le (Fin (- 100)) (discountRate s) \<and> num_lt (discountRate s) d'
         \<and> pos_finite (anni s)
         \<and> num_le (Zero Plus) (exitValue r)
         \<and> \<not> is_NaN (valuationToday r) \<and> \<not> is_NaN (valuationToday r')
      \<longrightarrow> num_le (valuationToday r') (valuationToday r)
        \<and> (pos_finite (num_mul (investimento s) (investUnita s))
            \<longrightarrow> num_le (vcOwnership r) (vcOwnership r')))
     \<and> (pos_finite (exitValue r) \<and> clearly_less (powerFactor r) (powerFactor r')
         \<and> normal_finite (valuationToday r')
      \<longrightarrow> num_lt (valuationToday r') (valuationToday r)
        \<and> (pos_finite (num_mul (investimento s) (investUnita s)) \<and> normal_finite (vcOwnership r)
            \<longrightarrow> num_lt (vcOwnership r) (vcOwnership r')))
     \<and> (num_le (Zero Plus) (exitValue r)
         \<and> nonneg_proper (powerFactor r) \<and> nonneg_proper (powerFactor r')
         \<and> num_le (powerFactor r) (powerFactor r')
         \<and> \<not> is_NaN (valuationToday r) \<and> \<not> is_NaN (valuationToday r')
      \<longrightarrow> num_le (valuationToday r') (valuationToday r)
        \<and> (pos_finite (num_mul (investimento s) (investUnita s))
            \<longrightarrow> num_le (vcOwnership r) (vcOwnership r')))"
proof -
  let ?ev = "num_mul (num_mul (ricaviY5 s) (ricaviUnita s)) (multiplo s)"
  let ?inv = "num_mul (investimento s) (investUnita s)"
  let ?p = "powerFactor r"
  let ?p' = "powerFactor r'"
  have ev: "exitValue r = ?ev" by (simp add: assms results_def Let_def)
  have v: "valuationToday r = num_div ?ev ?p" "valuationToday r' = num_div ?ev ?p'"
    by (simp_all add: assms results_def Let_def)
  have o: "vcOwnership r = num_div ?inv (num_div ?ev ?p)"
    "vcOwnership r' = num_div ?inv (num_div ?ev ?p')"
    by (simp_all add: assms results_def Let_def)
  have mono: "nonneg_proper ?p \<and> nonneg_proper ?p' \<and> num_le ?p ?p'"
    if "mono_pow pw" "pos_finite (anni s)" "num_le (Fin (- 100)) (discountRate s)"
      "num_lt (discountRate s) d'"
    unfolding assms using that by (rule power_factor_mono)
  have apart: "clearly_less ?p ?p'"
    if "accurate_pow pw" "num_le (Zero Plus) (discountRate s)" "num_lt (discountRate s) d'"
      "num_le d' (Fin 1000)" "real_of (discountRate s) + 1 / 10 ^ 9 \<le> real_of d'"
      "num_le (Fin 1) (anni s)" "num_le (anni s) (Fin 200)"
    unfolding assms using that by (rule power_factor_apart)
  have le: "num_le (valuationToday r') (valuationToday r)
        \<and> (pos_finite ?inv \<longrightarrow> num_le (vcOwnership r) (vcOwnership r'))"
    if "num_le (Zero Plus) (exitValue r)" "nonneg_proper ?p" "nonneg_proper ?p'" "num_le ?p ?p'"
      "\<not> is_NaN (valuationToday r)" "\<not> is_NaN (valuationToday r')"
  proof -
    note h = that[unfolded ev v]
    have "num_le (num_div ?ev ?p') (num_div ?ev ?p)" using h by (rule discount_antitone)
    moreover have "num_le (num_div ?inv (num_div ?ev ?p)) (num_div ?inv (num_div ?ev ?p'))"
      if inv: "pos_finite ?inv"
    proof -
      obtain i where i: "?inv = Fin i" "0 < i" using inv pos_finiteD by blast
      show ?thesis unfolding i(1) using h i(2) by (rule ownership_monotone)
    qed
    ultimately show ?thesis by (simp add: v o)
  qed
  have less: "num_lt (valuationToday r') (valuationToday r)
        \<and> (pos_finite ?inv \<and> normal_finite (vcOwnership r)
            \<longrightarrow> num_lt (vcOwnership r) (vcOwnership r'))"
    if e: "pos_finite (exitValue r)" and c: "clearly_less ?p ?p'"
      and n': "normal_finite (valuationToday r')"
  proof -
    have "pos_finite ?ev" using e by (simp only: ev)
    then obtain x where x: "?ev = Fin x" "0 < x" using pos_finiteD by blast
    note n = n'[unfolded v x(1)]
    have "num_lt (num_div (Fin x) ?p') (num_div (Fin x) ?p)"
      using x(2) c n by (rule discount_strict(1))
    moreover have "num_lt (num_div ?inv (num_div (Fin x) ?p)) (num_div ?inv (num_div (Fin x) ?p'))"
      if inv: "pos_finite ?inv" and own: "normal_finite (num_div ?inv (num_div (Fin x) ?p))"
    proof -
      obtain i where i: "?inv = Fin i" "0 < i" using inv pos_finiteD by blast
      show ?thesis unfolding i(1)
        using x(2) c n i(2) own[unfolded i(1)] by (rule discount_strict(2))
    qed
    ultimately show ?thesis by (simp add: v o x(1))
  qed
  show ?thesis using mono apart le less by blast
qed

text \<open>
  The theorem at the initial state, the rate raised from 45 to 50 percent, with
  the correctly rounded power, which is close to the real power and monotone:
  the power factor rises from about 6.41 to about 7.59, the valuation today
  falls strictly, from about 46.8 to about 39.5 millions, and the ownership
  rises strictly.
\<close>

theorem C4_valuation_antitone_witness:
  "accurate_pow pow_cr
   \<and> mono_pow pow_cr
   \<and> num_le (Zero Plus) (discountRate initialState)
   \<and> num_le (Fin (- 100)) (discountRate initialState)
   \<and> num_lt (discountRate initialState) (Fin 50)
   \<and> num_le (Fin 50) (Fin 1000)
   \<and> real_of (discountRate initialState) + 1 / 10 ^ 9 \<le> real_of (Fin 50)
   \<and> num_le (Fin 1) (anni initialState) \<and> num_le (anni initialState) (Fin 200)
   \<and> pos_finite (anni initialState)
   \<and> exitValue (results pow_cr initialState) = Fin 300000000
   \<and> pos_finite (num_mul (investimento initialState) (investUnita initialState))
   \<and> powerFactor (results pow_cr initialState) = Fin (7216718983854743 / 1125899906842624)
   \<and> powerFactor (results pow_cr (initialState\<lparr>discountRate := Fin 50\<rparr>)) = Fin (243 / 32)
   \<and> clearly_less (powerFactor (results pow_cr initialState))
        (powerFactor (results pow_cr (initialState\<lparr>discountRate := Fin 50\<rparr>)))
   \<and> nonneg_proper (powerFactor (results pow_cr initialState))
   \<and> nonneg_proper (powerFactor (results pow_cr (initialState\<lparr>discountRate := Fin 50\<rparr>)))
   \<and> num_le (powerFactor (results pow_cr initialState))
        (powerFactor (results pow_cr (initialState\<lparr>discountRate := Fin 50\<rparr>)))
   \<and> valuationToday (results pow_cr initialState) = Fin (6281901559000913 / 134217728)
   \<and> valuationToday (results pow_cr (initialState\<lparr>discountRate := Fin 50\<rparr>))
       = Fin (5302428760493827 / 134217728)
   \<and> normal_finite (valuationToday (results pow_cr (initialState\<lparr>discountRate := Fin 50\<rparr>)))
   \<and> normal_finite (vcOwnership (results pow_cr initialState))
   \<and> num_lt (valuationToday (results pow_cr (initialState\<lparr>discountRate := Fin 50\<rparr>)))
        (valuationToday (results pow_cr initialState))
   \<and> num_lt (vcOwnership (results pow_cr initialState))
        (vcOwnership (results pow_cr (initialState\<lparr>discountRate := Fin 50\<rparr>)))
   \<and> num_le (valuationToday (results pow_cr (initialState\<lparr>discountRate := Fin 50\<rparr>)))
        (valuationToday (results pow_cr initialState))
   \<and> num_le (vcOwnership (results pow_cr initialState))
        (vcOwnership (results pow_cr (initialState\<lparr>discountRate := Fin 50\<rparr>)))"
proof -
  let ?r = "results pow_cr initialState"
  let ?r' = "results pow_cr (initialState\<lparr>discountRate := Fin 50\<rparr>)"
  note T = C4_valuation_antitone[OF refl refl, where pw = pow_cr and s = initialState
      and d' = "Fin 50"]
  have a: "num_le (Zero Plus) (discountRate initialState)"
    "num_le (Fin (- 100)) (discountRate initialState)"
    "num_lt (discountRate initialState) (Fin 50)" "num_le (Fin 50) (Fin 1000)"
    "real_of (discountRate initialState) + 1 / 10 ^ 9 \<le> real_of (Fin 50)"
    "num_le (Fin 1) (anni initialState)" "num_le (anni initialState) (Fin 200)"
    "pos_finite (anni initialState)"
    by (simp_all add: initialState_def num_le_def num_lt_def)
  have i: "pos_finite (num_mul (investimento initialState) (investUnita initialState))"
    by (simp add: initialState_def MILLIONS_def investment_initial del: rounded_ops)
  have e: "exitValue ?r = Fin 300000000" "pos_finite (exitValue ?r)"
    "num_le (Zero Plus) (exitValue ?r)"
    by (simp_all add: results_initial num_le_def)
  have f: "powerFactor ?r = Fin (7216718983854743 / 1125899906842624)"
    "powerFactor ?r' = Fin (243 / 32)"
    by (simp_all add: results_initial results_rate50_factor)
  have c: "clearly_less (powerFactor ?r) (powerFactor ?r')"
    "nonneg_proper (powerFactor ?r)" "nonneg_proper (powerFactor ?r')"
    "num_le (powerFactor ?r) (powerFactor ?r')"
    by (simp_all add: f clearly_less_def num_le_def)
  have v: "valuationToday ?r = Fin (6281901559000913 / 134217728)"
    "valuationToday ?r' = Fin (5302428760493827 / 134217728)"
    "normal_finite (valuationToday ?r')" "normal_finite (vcOwnership ?r)"
    "\<not> is_NaN (valuationToday ?r)" "\<not> is_NaN (valuationToday ?r')"
    by (simp_all add: results_initial results_rate50)
  have S: "num_lt (valuationToday ?r') (valuationToday ?r)
      \<and> num_lt (vcOwnership ?r) (vcOwnership ?r')"
    using T[THEN conjunct1] accurate_pow_pow_cr a(1,3-7) e(2) v(3,4) i by simp
  have N: "num_le (valuationToday ?r') (valuationToday ?r)
      \<and> num_le (vcOwnership ?r) (vcOwnership ?r')"
    using T[THEN conjunct2, THEN conjunct1] mono_pow_pow_cr a(2,3,8) e(3) v(5,6) i by simp
  show ?thesis
    using accurate_pow_pow_cr mono_pow_pow_cr a i e(1) f c v(1-4) S N
    by (intro conjI) simp_all
qed

subsection \<open>C5: the valuation today against the exit value\<close>

text \<open>
  C5 as stated fails. With a revenue of \<open>-50\<close> millions the power factor is above
  1 and the valuation today, about \<open>-46.8\<close> millions, is above the exit value of
  \<open>-300\<close> millions. And with the revenue \<open>2 ^ 1023\<close> in millions and a multiple of
  zero, all at least zero, the scaled revenue overflows to infinity and the exit
  value is infinity times zero, NaN, which is not at least zero.
\<close>

theorem C5_counterexample:
  "num_le (Fin 1) (powerFactor (results pow_cr (initialState\<lparr>ricaviY5 := Fin (- 50)\<rparr>)))
   \<and> exitValue (results pow_cr (initialState\<lparr>ricaviY5 := Fin (- 50)\<rparr>)) = Fin (- 300000000)
   \<and> valuationToday (results pow_cr (initialState\<lparr>ricaviY5 := Fin (- 50)\<rparr>))
       = Fin (- (6281901559000913 / 134217728))
   \<and> \<not> num_le (valuationToday (results pow_cr (initialState\<lparr>ricaviY5 := Fin (- 50)\<rparr>)))
         (exitValue (results pow_cr (initialState\<lparr>ricaviY5 := Fin (- 50)\<rparr>)))
   \<and> num_le (Zero Plus) (ricaviY5 (initialState\<lparr>ricaviY5 := Fin (2 ^ 1023), multiplo := Zero Plus\<rparr>))
   \<and> num_le (Zero Plus) (ricaviUnita (initialState\<lparr>ricaviY5 := Fin (2 ^ 1023), multiplo := Zero Plus\<rparr>))
   \<and> num_le (Zero Plus) (multiplo (initialState\<lparr>ricaviY5 := Fin (2 ^ 1023), multiplo := Zero Plus\<rparr>))
   \<and> exitValue (results pow_cr (initialState\<lparr>ricaviY5 := Fin (2 ^ 1023), multiplo := Zero Plus\<rparr>))
       = NaN
   \<and> \<not> num_le (Zero Plus)
         (exitValue
           (results pow_cr (initialState\<lparr>ricaviY5 := Fin (2 ^ 1023), multiplo := Zero Plus\<rparr>)))"
proof -
  have "huge \<le> 2 ^ 1023 * 1000000" by (simp add: huge_def)
  then have "num_mul (Fin (2 ^ 1023)) (Fin 1000000) = Inf Plus"
    using round64_overflow[of "2 ^ 1023 * 1000000"] by (simp only: num_mul.simps)
  then show ?thesis
    by (simp add: results_def Let_def initialState_def MILLIONS_def num_le_def
        rate_45 base_45 power_45 revenue_negative exit_negative valuation_negative del: rounded_ops)
qed

text \<open>
  C5, amended. For every input whose power factor is at least 1 and whose exit
  value is at least zero, the two not both infinite, the valuation today is at
  most the exit value. And when revenue, revenue unit scale and multiple are all
  at least zero, the exit value is at least zero unless it is NaN.
\<close>

theorem C5_valuation_bounds:
  "(num_le (Fin 1) (powerFactor (results pw s))
      \<and> num_le (Zero Plus) (exitValue (results pw s))
      \<and> \<not> (is_infinite (exitValue (results pw s)) \<and> is_infinite (powerFactor (results pw s)))
      \<longrightarrow> num_le (valuationToday (results pw s)) (exitValue (results pw s)))
   \<and> (num_le (Zero Plus) (ricaviY5 s) \<and> num_le (Zero Plus) (ricaviUnita s)
      \<and> num_le (Zero Plus) (multiplo s) \<and> \<not> is_NaN (exitValue (results pw s))
      \<longrightarrow> num_le (Zero Plus) (exitValue (results pw s)))"
proof -
  let ?ev = "num_mul (num_mul (ricaviY5 s) (ricaviUnita s)) (multiplo s)"
  let ?pf = "Math_pow pw (num_add (Fin 1) (num_div (discountRate s) (Fin 100))) (anni s)"
  have 1: "num_le (num_div ?ev ?pf) ?ev"
    if "num_le (Fin 1) ?pf" "num_le (Zero Plus) ?ev" "\<not> (is_infinite ?ev \<and> is_infinite ?pf)"
    using that by (rule discounted_le) (rule num_mul_double)
  have 2: "num_le (Zero Plus) ?ev"
    if a: "num_le (Zero Plus) (ricaviY5 s)" "num_le (Zero Plus) (ricaviUnita s)"
      "num_le (Zero Plus) (multiplo s)" and n: "\<not> is_NaN ?ev"
  proof -
    have "\<not> is_NaN (num_mul (ricaviY5 s) (ricaviUnita s))" using n by (rule mul_NaN_left)
    with a(1,2) have "num_le (Zero Plus) (num_mul (ricaviY5 s) (ricaviUnita s))"
      by (rule mul_nonneg)
    then show ?thesis using a(3) n by (rule mul_nonneg)
  qed
  show ?thesis using 1 2 by (simp add: results_def Let_def)
qed

text \<open>
  The theorem at the initial state: a power factor of about 6.41 and an exit
  value of 300 millions.
\<close>

theorem C5_valuation_bounds_witness:
  "num_le (Fin 1) (powerFactor (results pow_cr initialState))
   \<and> num_le (Zero Plus) (exitValue (results pow_cr initialState))
   \<and> \<not> (is_infinite (exitValue (results pow_cr initialState))
          \<and> is_infinite (powerFactor (results pow_cr initialState)))
   \<and> num_le (valuationToday (results pow_cr initialState)) (exitValue (results pow_cr initialState))
   \<and> num_le (Zero Plus) (ricaviY5 initialState)
   \<and> num_le (Zero Plus) (ricaviUnita initialState)
   \<and> num_le (Zero Plus) (multiplo initialState)
   \<and> \<not> is_NaN (exitValue (results pow_cr initialState))"
proof -
  have h: "num_le (Fin 1) (powerFactor (results pow_cr initialState))"
    "num_le (Zero Plus) (exitValue (results pow_cr initialState))"
    "\<not> (is_infinite (exitValue (results pow_cr initialState))
          \<and> is_infinite (powerFactor (results pow_cr initialState)))"
    "\<not> is_NaN (exitValue (results pow_cr initialState))"
    by (simp_all add: results_initial num_le_def)
  have i: "num_le (Zero Plus) (ricaviY5 initialState)"
    "num_le (Zero Plus) (ricaviUnita initialState)"
    "num_le (Zero Plus) (multiplo initialState)"
    by (simp_all add: initialState_def MILLIONS_def num_le_def)
  from C5_valuation_bounds[of pow_cr initialState] h i show ?thesis by blast
qed

subsection \<open>C6: determinism\<close>



subsection \<open>C7: totality\<close>

text \<open>
  C7. \<open>results\<close> and \<open>sensitivityData\<close> are total: every input, also a zero,
  negative or degenerate one, gives a result and no exception. \<open>results\<close> is
  arithmetic alone; the sweep returns its six points (\<open>toFixed\<close>, the one call
  that can raise, never does here). Degenerate arithmetic shows as an infinity
  or NaN in the field that is returned. In the sweep: a power of zero at a grid
  rate gives that point an infinite or NaN valuation, and a NaN exit value or
  power gives it a NaN valuation. In \<open>results\<close>: a zero power factor gives an
  infinite or NaN valuation today, a zero valuation today an infinite or NaN
  ownership, a zero scaled investment a NaN ROI; a NaN exit value or power
  factor gives a NaN valuation today, and a NaN valuation today a NaN pre-money
  valuation, ownership, ROI and profit; an exit value that overflows to an
  infinity gives an infinite or NaN valuation today; a base below zero with
  years that are no integer gives a NaN power factor.
\<close>

theorem C7_total:
  "(\<exists>pts. sensitivityData pw s = Inr pts \<and> length pts = length drRates
      \<and> (\<forall>i < length drRates.
            (is_zero (Math_pow pw (num_add (Fin 1) (drRates ! i)) (anni s)) \<longrightarrow>
               is_infinite (valuation (pts ! i)) \<or> is_NaN (valuation (pts ! i)))
          \<and> (is_NaN (exitValue (results pw s))
               \<or> is_NaN (Math_pow pw (num_add (Fin 1) (drRates ! i)) (anni s)) \<longrightarrow>
               is_NaN (valuation (pts ! i)))))
   \<and> (is_zero (powerFactor (results pw s)) \<longrightarrow>
        is_infinite (valuationToday (results pw s)) \<or> is_NaN (valuationToday (results pw s)))
   \<and> (is_zero (valuationToday (results pw s)) \<longrightarrow>
        is_infinite (vcOwnership (results pw s)) \<or> is_NaN (vcOwnership (results pw s)))
   \<and> (is_zero (num_mul (investimento s) (investUnita s)) \<longrightarrow>
        is_NaN (roiAtteso (results pw s)))
   \<and> (is_NaN (exitValue (results pw s)) \<or> is_NaN (powerFactor (results pw s)) \<longrightarrow>
        is_NaN (valuationToday (results pw s)))
   \<and> (is_NaN (valuationToday (results pw s)) \<longrightarrow>
        is_NaN (preMoneyVal (results pw s)) \<and> is_NaN (vcOwnership (results pw s))
        \<and> is_NaN (roiAtteso (results pw s)) \<and> is_NaN (profitto (results pw s)))
   \<and> (is_infinite (exitValue (results pw s)) \<longrightarrow>
        is_infinite (valuationToday (results pw s)) \<or> is_NaN (valuationToday (results pw s)))
   \<and> (num_add (Fin 1) (num_div (discountRate s) (Fin 100)) = Fin b \<and> b < 0
        \<and> anni s = Fin e \<and> \<not> is_integral e \<longrightarrow>
        is_NaN (powerFactor (results pw s)))"
proof -
  let ?ev = "num_mul (num_mul (ricaviY5 s) (ricaviUnita s)) (multiplo s)"
  let ?inv = "num_mul (investimento s) (investUnita s)"
  have sweep: "\<exists>pts. sensitivityData pw s = Inr pts \<and> length pts = length drRates
      \<and> (\<forall>i < length drRates.
            (is_zero (Math_pow pw (num_add (Fin 1) (drRates ! i)) (anni s)) \<longrightarrow>
               is_infinite (valuation (pts ! i)) \<or> is_NaN (valuation (pts ! i)))
          \<and> (is_NaN (exitValue (results pw s))
               \<or> is_NaN (Math_pow pw (num_add (Fin 1) (drRates ! i)) (anni s)) \<longrightarrow>
               is_NaN (valuation (pts ! i))))"
  proof -
    obtain pts where pts: "sensitivityData pw s = Inr pts" "length pts = length drRates"
      using sweep_fields[of 0 pw s] by (auto simp: drRates_def)
    have "(is_zero (Math_pow pw (num_add (Fin 1) (drRates ! i)) (anni s)) \<longrightarrow>
               is_infinite (valuation (pts ! i)) \<or> is_NaN (valuation (pts ! i)))
          \<and> (is_NaN (exitValue (results pw s))
               \<or> is_NaN (Math_pow pw (num_add (Fin 1) (drRates ! i)) (anni s)) \<longrightarrow>
               is_NaN (valuation (pts ! i)))" if "i < length drRates" for i
    proof -
      have v: "valuation (pts ! i) = valuationInMillions pw s (drRates ! i)"
        using sweep_fields[OF that, of pw s] pts(1) by auto
      have e: "exitValue (results pw s) = ?ev" by (simp add: results_def Let_def)
      show ?thesis unfolding v e valuationInMillions_def
        using in_millions_zero_power in_millions_NaN by blast
    qed
    then show ?thesis using pts by blast
  qed
  have roi: "is_NaN (roiAtteso (results pw s))" if z: "is_zero ?inv"
  proof -
    have "is_zero (vcOwnership (results pw s)) \<or> is_NaN (vcOwnership (results pw s))"
      using zero_div_any[OF z] by (simp add: results_def Let_def)
    then have "is_zero (num_mul (exitValue (results pw s)) (vcOwnership (results pw s)))
        \<or> is_NaN (num_mul (exitValue (results pw s)) (vcOwnership (results pw s)))"
      by (rule mul_zero_or_NaN)
    from zero_div_zero[OF z this] show ?thesis by (simp add: results_def Let_def)
  qed
  have nan: "is_NaN (preMoneyVal (results pw s)) \<and> is_NaN (vcOwnership (results pw s))
        \<and> is_NaN (roiAtteso (results pw s)) \<and> is_NaN (profitto (results pw s))"
    if n: "is_NaN (valuationToday (results pw s))"
  proof -
    have o: "is_NaN (vcOwnership (results pw s))"
      using div_NaN[of ?inv "valuationToday (results pw s)"] n by (simp add: results_def Let_def)
    then have m: "is_NaN (num_mul (exitValue (results pw s)) (vcOwnership (results pw s)))"
      using mul_NaN by blast
    have "is_NaN (preMoneyVal (results pw s))"
      using sub_NaN[of "valuationToday (results pw s)" ?inv] n by (simp add: results_def Let_def)
    moreover have "is_NaN (roiAtteso (results pw s))"
      using div_NaN[of "num_mul (exitValue (results pw s)) (vcOwnership (results pw s))" ?inv] m
      by (simp add: results_def Let_def)
    moreover have "is_NaN (profitto (results pw s))"
      using sub_NaN[of "num_mul (exitValue (results pw s)) (vcOwnership (results pw s))" ?inv] m
      by (simp add: results_def Let_def)
    ultimately show ?thesis using o by blast
  qed
  have val: "is_NaN (valuationToday (results pw s))"
    if "is_NaN (exitValue (results pw s)) \<or> is_NaN (powerFactor (results pw s))"
    using div_NaN[OF that] by (simp add: results_def Let_def)
  have rest: "(is_zero (powerFactor (results pw s)) \<longrightarrow>
        is_infinite (valuationToday (results pw s)) \<or> is_NaN (valuationToday (results pw s)))
   \<and> (is_zero (valuationToday (results pw s)) \<longrightarrow>
        is_infinite (vcOwnership (results pw s)) \<or> is_NaN (vcOwnership (results pw s)))
   \<and> (is_infinite (exitValue (results pw s)) \<longrightarrow>
        is_infinite (valuationToday (results pw s)) \<or> is_NaN (valuationToday (results pw s)))
   \<and> (num_add (Fin 1) (num_div (discountRate s) (Fin 100)) = Fin b \<and> b < 0
        \<and> anni s = Fin e \<and> \<not> is_integral e \<longrightarrow>
        is_NaN (powerFactor (results pw s)))"
    by (simp add: results_def Let_def div_by_zero_special div_infinite)
  show ?thesis using sweep roi nan val rest by blast
qed

text \<open>
  The theorem at six inputs: a revenue and an investment of zero, where the
  valuation today and the scaled investment are zero; a rate of \<open>-100\<close> percent,
  where the power factor is zero; a revenue of NaN, as an empty input field
  gives it; a revenue of \<open>2 ^ 1023\<close> millions, where the scaled revenue
  overflows; a rate of \<open>-200\<close> percent with two and a half years, where the
  base is \<open>-1\<close>; and \<open>-5000\<close> years, where the power underflows to zero at
  every grid rate and every point of the sweep is infinite.
\<close>

theorem C7_total_witness:
  "is_zero (valuationToday (results pow_cr (initialState\<lparr>ricaviY5 := Zero Plus, investimento := Zero Plus\<rparr>)))
   \<and> is_NaN (vcOwnership (results pow_cr (initialState\<lparr>ricaviY5 := Zero Plus, investimento := Zero Plus\<rparr>)))
   \<and> is_zero (num_mul (investimento (initialState\<lparr>ricaviY5 := Zero Plus, investimento := Zero Plus\<rparr>))
        (investUnita (initialState\<lparr>ricaviY5 := Zero Plus, investimento := Zero Plus\<rparr>)))
   \<and> is_NaN (roiAtteso (results pow_cr (initialState\<lparr>ricaviY5 := Zero Plus, investimento := Zero Plus\<rparr>)))
   \<and> is_zero (powerFactor (results pow_cr (initialState\<lparr>discountRate := Fin (- 100)\<rparr>)))
   \<and> is_infinite (valuationToday (results pow_cr (initialState\<lparr>discountRate := Fin (- 100)\<rparr>)))
   \<and> is_NaN (exitValue (results pow_cr (initialState\<lparr>ricaviY5 := NaN\<rparr>)))
   \<and> is_NaN (valuationToday (results pow_cr (initialState\<lparr>ricaviY5 := NaN\<rparr>)))
   \<and> is_NaN (preMoneyVal (results pow_cr (initialState\<lparr>ricaviY5 := NaN\<rparr>)))
   \<and> is_NaN (vcOwnership (results pow_cr (initialState\<lparr>ricaviY5 := NaN\<rparr>)))
   \<and> is_NaN (roiAtteso (results pow_cr (initialState\<lparr>ricaviY5 := NaN\<rparr>)))
   \<and> is_NaN (profitto (results pow_cr (initialState\<lparr>ricaviY5 := NaN\<rparr>)))
   \<and> (\<exists>pts. sensitivityData pow_cr (initialState\<lparr>ricaviY5 := NaN\<rparr>) = Inr pts
         \<and> length pts = 6 \<and> list_all (\<lambda>p. is_NaN (valuation p)) pts)
   \<and> is_infinite (exitValue (results pow_cr (initialState\<lparr>ricaviY5 := Fin (2 ^ 1023)\<rparr>)))
   \<and> is_infinite (valuationToday (results pow_cr (initialState\<lparr>ricaviY5 := Fin (2 ^ 1023)\<rparr>)))
   \<and> num_add (Fin 1)
        (num_div (discountRate (initialState\<lparr>discountRate := Fin (- 200), anni := Fin (5 / 2)\<rparr>)) (Fin 100))
       = Fin (- 1)
   \<and> \<not> is_integral (5 / 2)
   \<and> is_NaN (powerFactor
        (results pow_cr (initialState\<lparr>discountRate := Fin (- 200), anni := Fin (5 / 2)\<rparr>)))
   \<and> list_all (\<lambda>r. is_zero (Math_pow pow_cr (num_add (Fin 1) r)
                      (anni (initialState\<lparr>anni := Fin (- 5000)\<rparr>)))) drRates
   \<and> (\<exists>pts. sensitivityData pow_cr (initialState\<lparr>anni := Fin (- 5000)\<rparr>) = Inr pts
         \<and> length pts = 6 \<and> list_all (\<lambda>p. is_infinite (valuation p)) pts)"
proof -
  let ?a = "initialState\<lparr>ricaviY5 := Zero Plus, investimento := Zero Plus\<rparr>"
  let ?b = "initialState\<lparr>discountRate := Fin (- 100)\<rparr>"
  let ?c = "initialState\<lparr>ricaviY5 := NaN\<rparr>"
  let ?d = "initialState\<lparr>discountRate := Fin (- 200), anni := Fin (5 / 2)\<rparr>"
  let ?e = "initialState\<lparr>anni := Fin (- 5000)\<rparr>"
  let ?f = "initialState\<lparr>ricaviY5 := Fin (2 ^ 1023)\<rparr>"
  have six: "length drRates = 6" by (simp add: drRates_def)
  have f: "is_infinite (exitValue (results pow_cr ?f))"
    "is_infinite (valuationToday (results pow_cr ?f))"
    using revenue_overflow
    by (simp_all add: results_def Let_def initialState_def MILLIONS_def sign_of_real_def
        rate_45 base_45 power_45 del: rounded_ops)
  have a: "is_zero (valuationToday (results pow_cr ?a))"
    "is_zero (num_mul (investimento ?a) (investUnita ?a))"
    "is_NaN (vcOwnership (results pow_cr ?a))"
    by (simp_all add: results_def Let_def initialState_def MILLIONS_def sign_of_real_def
        rate_45 base_45 power_45 del: rounded_ops)
  have b: "is_zero (powerFactor (results pow_cr ?b))"
    "is_infinite (valuationToday (results pow_cr ?b))"
    by (simp_all add: results_def Let_def initialState_def MILLIONS_def sign_of_real_def
        num_lt_def rate_minus_100 revenue_initial exit_initial one_minus_one del: rounded_ops)
  have c: "is_NaN (exitValue (results pow_cr ?c))"
    by (simp add: results_def Let_def initialState_def)
  have d: "num_add (Fin 1) (num_div (discountRate ?d) (Fin 100)) = Fin (- 1)"
    "anni ?d = Fin (5 / 2)" "\<not> is_integral (5 / 2)" "(- 1 :: real) < 0"
    by (simp_all add: initialState_def rate_minus_200 one_minus_two is_integral_def
        del: rounded_ops)
  have e: "\<forall>i < 6. is_zero (Math_pow pow_cr (num_add (Fin 1) (drRates ! i)) (anni ?e))"
    using grid_powers_underflow by (simp add: initialState_def)
  have ta: "is_NaN (roiAtteso (results pow_cr ?a))"
    using C7_total[of pow_cr ?a, THEN conjunct2, THEN conjunct2, THEN conjunct2, THEN conjunct1]
      a(2) by simp
  note c1 = C7_total[of pow_cr ?c, THEN conjunct1, unfolded six]
  note c5 = C7_total[of pow_cr ?c, THEN conjunct2, THEN conjunct2, THEN conjunct2, THEN conjunct2,
      THEN conjunct1]
  note c6 = C7_total[of pow_cr ?c, THEN conjunct2, THEN conjunct2, THEN conjunct2, THEN conjunct2,
      THEN conjunct2, THEN conjunct1]
  have tc5: "is_NaN (valuationToday (results pow_cr ?c))" using c5 c by simp
  have tc6: "is_NaN (preMoneyVal (results pow_cr ?c))" "is_NaN (vcOwnership (results pow_cr ?c))"
    "is_NaN (roiAtteso (results pow_cr ?c))" "is_NaN (profitto (results pow_cr ?c))"
    using c6 tc5 by simp_all
  obtain pc where pc: "sensitivityData pow_cr ?c = Inr pc" "length pc = 6"
    "\<forall>i<6. (is_NaN (exitValue (results pow_cr ?c))
        \<or> is_NaN (Math_pow pow_cr (num_add (Fin 1) (drRates ! i)) (anni ?c)) \<longrightarrow>
        is_NaN (valuation (pc ! i)))"
    using c1 by auto
  have tc1: "\<exists>pts. sensitivityData pow_cr ?c = Inr pts \<and> length pts = 6
       \<and> list_all (\<lambda>p. is_NaN (valuation p)) pts"
    using pc c by (intro exI[of _ pc]) (simp add: list_all_length)
  have td: "is_NaN (powerFactor (results pow_cr ?d))"
    using C7_total[of pow_cr ?d "- 1" "5 / 2", THEN conjunct2, THEN conjunct2, THEN conjunct2,
        THEN conjunct2, THEN conjunct2, THEN conjunct2, THEN conjunct2] d
    by simp
  obtain pe where pe: "sensitivityData pow_cr ?e = Inr pe" "length pe = 6"
    using C7_total[of pow_cr ?e, THEN conjunct1, unfolded six] by auto
  have "is_infinite (valuation (pe ! i))" if "i < 6" for i
  proof -
    have "valuation (pe ! i) = valuationInMillions pow_cr ?e (drRates ! i)"
      using sweep_fields[of i pow_cr ?e] pe(1) that by (auto simp: six)
    moreover have "is_zero (Math_pow pow_cr (num_add (Fin 1) (drRates ! i)) (anni ?e))"
      using e that by simp
    ultimately show ?thesis
      by (simp add: valuationInMillions_def initialState_def MILLIONS_def revenue_initial
          exit_initial in_millions_infinite del: rounded_ops)
  qed
  then have te: "\<exists>pts. sensitivityData pow_cr ?e = Inr pts \<and> length pts = 6
      \<and> list_all (\<lambda>p. is_infinite (valuation p)) pts"
    using pe by (intro exI[of _ pe]) (simp add: list_all_length)
  have e': "list_all (\<lambda>r. is_zero (Math_pow pow_cr (num_add (Fin 1) r) (anni ?e))) drRates"
    using e by (simp add: list_all_length six)
  show ?thesis using a b c d(1,3) e' f ta tc5 tc6 tc1 td te by (intro conjI)
qed

subsection \<open>C8: the boundaries\<close>

text \<open>
  C8 as stated fails: with an investment of zero the ownership is not always
  zero. With a revenue of zero as well, the valuation today is zero and the
  ownership is zero over zero, NaN.
\<close>

theorem C8_counterexample:
  "is_zero (investimento (initialState\<lparr>ricaviY5 := Zero Plus, investimento := Zero Plus\<rparr>))
   \<and> vcOwnership (results pow_cr (initialState\<lparr>ricaviY5 := Zero Plus, investimento := Zero Plus\<rparr>))
       = NaN
   \<and> \<not> num_eq
         (vcOwnership (results pow_cr (initialState\<lparr>ricaviY5 := Zero Plus, investimento := Zero Plus\<rparr>)))
         (Zero Plus)"
  by (simp add: results_def Let_def initialState_def MILLIONS_def sign_of_real_def num_eq_def
      rate_45 base_45 power_45 del: rounded_ops)

text \<open>
  C8, amended. For every input with an investment of zero and a finite unit
  scale, the ROI multiple is NaN, and the ownership is zero when the valuation
  today is neither zero nor NaN, and NaN when it is. For every input with zero
  years to exit, the power factor is 1 and the valuation today is the exit
  value.
\<close>

theorem C8_boundaries:
  "(is_zero (investimento s) \<and> \<not> is_NaN (investUnita s) \<and> \<not> is_infinite (investUnita s)
      \<longrightarrow> is_NaN (roiAtteso (results pw s))
        \<and> (if is_zero (valuationToday (results pw s)) \<or> is_NaN (valuationToday (results pw s))
           then is_NaN (vcOwnership (results pw s))
           else is_zero (vcOwnership (results pw s))))
   \<and> (is_zero (anni s)
      \<longrightarrow> powerFactor (results pw s) = Fin 1
        \<and> valuationToday (results pw s) = exitValue (results pw s))"
proof -
  let ?inv = "num_mul (investimento s) (investUnita s)"
  let ?ev = "num_mul (num_mul (ricaviY5 s) (ricaviUnita s)) (multiplo s)"
  have 1: "is_NaN (roiAtteso (results pw s))
        \<and> (if is_zero (valuationToday (results pw s)) \<or> is_NaN (valuationToday (results pw s))
           then is_NaN (vcOwnership (results pw s))
           else is_zero (vcOwnership (results pw s)))"
    if "is_zero (investimento s)" "\<not> is_NaN (investUnita s)" "\<not> is_infinite (investUnita s)"
  proof -
    have z: "is_zero ?inv" using that by (rule zero_mul_finite)
    have own: "vcOwnership (results pw s) = num_div ?inv (valuationToday (results pw s))"
      by (simp add: results_def Let_def)
    have "is_zero (vcOwnership (results pw s)) \<or> is_NaN (vcOwnership (results pw s))"
      unfolding own using zero_div_any[OF z] .
    then have "is_zero (num_mul (exitValue (results pw s)) (vcOwnership (results pw s)))
        \<or> is_NaN (num_mul (exitValue (results pw s)) (vcOwnership (results pw s)))"
      by (rule mul_zero_or_NaN)
    from zero_div_zero[OF z this] have "is_NaN (roiAtteso (results pw s))"
      by (simp add: results_def Let_def)
    then show ?thesis unfolding own using zero_div_cases[OF z] by simp
  qed
  have 2: "powerFactor (results pw s) = Fin 1
        \<and> valuationToday (results pw s) = exitValue (results pw s)"
    if "is_zero (anni s)"
  proof -
    have "num_div ?ev (Fin 1) = ?ev" by (rule num_div_one) (rule num_mul_double)
    then show ?thesis using that by (simp add: results_def Let_def pow_zero_exponent)
  qed
  show ?thesis using 1 2 by blast
qed

text \<open>
  The theorem at the initial state with the investment and the years set to
  zero.
\<close>

theorem C8_boundaries_witness:
  "is_zero (investimento (initialState\<lparr>investimento := Zero Plus, anni := Zero Plus\<rparr>))
   \<and> \<not> is_NaN (investUnita (initialState\<lparr>investimento := Zero Plus, anni := Zero Plus\<rparr>))
   \<and> \<not> is_infinite (investUnita (initialState\<lparr>investimento := Zero Plus, anni := Zero Plus\<rparr>))
   \<and> is_NaN (roiAtteso (results pow_cr (initialState\<lparr>investimento := Zero Plus, anni := Zero Plus\<rparr>)))
   \<and> is_zero (vcOwnership (results pow_cr (initialState\<lparr>investimento := Zero Plus, anni := Zero Plus\<rparr>)))
   \<and> is_zero (anni (initialState\<lparr>investimento := Zero Plus, anni := Zero Plus\<rparr>))
   \<and> powerFactor (results pow_cr (initialState\<lparr>investimento := Zero Plus, anni := Zero Plus\<rparr>)) = Fin 1
   \<and> valuationToday (results pow_cr (initialState\<lparr>investimento := Zero Plus, anni := Zero Plus\<rparr>))
       = exitValue (results pow_cr (initialState\<lparr>investimento := Zero Plus, anni := Zero Plus\<rparr>))
   \<and> exitValue (results pow_cr (initialState\<lparr>investimento := Zero Plus, anni := Zero Plus\<rparr>))
       = Fin 300000000"
proof -
  let ?s = "initialState\<lparr>investimento := Zero Plus, anni := Zero Plus\<rparr>"
  have h: "is_zero (investimento ?s)" "\<not> is_NaN (investUnita ?s)" "\<not> is_infinite (investUnita ?s)"
    "is_zero (anni ?s)"
    by (simp_all add: initialState_def MILLIONS_def)
  have e: "exitValue (results pow_cr ?s) = Fin 300000000"
    by (simp add: results_def Let_def initialState_def MILLIONS_def revenue_initial exit_initial
        del: rounded_ops)
  from C8_boundaries[of ?s pow_cr] h have
    "is_NaN (roiAtteso (results pow_cr ?s))"
    "if is_zero (valuationToday (results pow_cr ?s)) \<or> is_NaN (valuationToday (results pow_cr ?s))
     then is_NaN (vcOwnership (results pow_cr ?s)) else is_zero (vcOwnership (results pow_cr ?s))"
    "powerFactor (results pow_cr ?s) = Fin 1"
    "valuationToday (results pow_cr ?s) = exitValue (results pow_cr ?s)"
    by blast+
  then show ?thesis using h e by simp
qed

subsection \<open>C9: the currency format\<close>

text \<open>
  C9 as stated fails: not every amount is rendered with one decimal place or as
  an integer. NaN is rendered as NaN, an infinity as Infinity with the millions
  suffix, and the binary64 value nearest to \<open>10 ^ 27\<close>, whose value in millions is
  \<open>10 ^ 21\<close>, in exponent notation.
\<close>

theorem C9_counterexample:
  "formatCurrency NaN = Inr (euro @ ''NaN'')
   \<and> formatCurrency (Inf Plus) = Inr (euro @ ''InfinityM'')
   \<and> formatCurrency (Fin 1000000000000000013287555072) = Inr (euro @ ''1e+21M'')"
  by (simp add: formatCurrency_def toFixed_def num_ge_def num_le_def sign_of_real_def
      millions_1e27 toString_large_1e21 del: rounded_ops)

text \<open>
  C9, amended. For every amount whose value in millions, as computed, is below
  \<open>10 ^ 21\<close> in magnitude (so neither NaN nor an infinity), the formatter renders,
  after the euro sign: the amount over 1,000,000 with one decimal place and the
  suffix M when the magnitude is at least 1,000,000; else the amount over 1,000
  with one decimal place and the suffix k when the magnitude is at least 1,000;
  else the amount as an integer with no decimal places. The comparisons are at
  exactly 1,000 and 1,000,000.
\<close>

theorem C9_formatCurrency:
  assumes "num_lt (Math_abs (num_div amount (Fin 1000000))) (Fin (10 ^ 21))"
  shows "formatCurrency amount =
     Inr (euro @
       (if 1000000 \<le> \<bar>real_of amount\<bar>
        then one_decimal (real_of (num_div amount (Fin 1000000))) @ ''M''
        else if 1000 \<le> \<bar>real_of amount\<bar>
        then one_decimal (real_of (num_div amount (Fin 1000))) @ ''k''
        else no_decimals (real_of amount)))"
proof (cases amount)
  case (Fin v)
  consider (m) "1000000 \<le> \<bar>v\<bar>" | (k) "1000 \<le> \<bar>v\<bar>" "\<bar>v\<bar> < 1000000" | (u) "\<bar>v\<bar> < 1000"
    by linarith
  then show ?thesis
  proof cases
    case m
    then show ?thesis using assms toFixed1_shape[OF assms]
      by (simp add: Fin formatCurrency_def num_ge_def num_le_def)
  next
    case k
    have "toFixed 1 (round64 (v / 1000)) = Inr (one_decimal (real_of (round64 (v / 1000))))"
      using thousands_small[OF k(2)] by (rule toFixed1_shape)
    then show ?thesis using k
      by (simp add: Fin formatCurrency_def num_ge_def num_le_def)
  next
    case u
    then have "num_lt (Math_abs (Fin v)) (Fin (10 ^ 21))" by (simp add: num_lt_def)
    from toFixed0_shape[OF this] show ?thesis using u
      by (simp add: Fin formatCurrency_def num_ge_def num_le_def)
  qed
next
  case (Zero s)
  have "num_lt (Math_abs (Zero s)) (Fin (10 ^ 21))" by (simp add: num_lt_def)
  from toFixed0_shape[OF this] show ?thesis
    by (simp add: Zero formatCurrency_def num_ge_def num_le_def)
qed (use assms in \<open>simp_all add: num_lt_def sign_of_real_def\<close>)

text \<open>
  The theorem at the amounts the spec names and at the thresholds: 1,500,000,
  2,500 and 42; 1,000,000 and 999,999; 1,000 and 999; a negative amount and
  zero.
\<close>

theorem C9_formatCurrency_witness:
  "num_lt (Math_abs (num_div (Fin 1500000) (Fin 1000000))) (Fin (10 ^ 21))
   \<and> formatCurrency (Fin 1500000) = Inr (euro @ ''1.5M'')
   \<and> formatCurrency (Fin 2500) = Inr (euro @ ''2.5k'')
   \<and> formatCurrency (Fin 42) = Inr (euro @ ''42'')
   \<and> formatCurrency (Fin 1000000) = Inr (euro @ ''1.0M'')
   \<and> formatCurrency (Fin 999999) = Inr (euro @ ''1000.0k'')
   \<and> formatCurrency (Fin 1000) = Inr (euro @ ''1.0k'')
   \<and> formatCurrency (Fin 999) = Inr (euro @ ''999'')
   \<and> formatCurrency (Fin (- 2500)) = Inr (euro @ ''-2.5k'')
   \<and> formatCurrency (Zero Plus) = Inr (euro @ ''0'')"
proof -
  have z: "num_lt (Math_abs (num_div (Zero Plus) (Fin 1000000))) (Fin (10 ^ 21))"
    by (simp add: num_lt_def)
  have m: "num_div (Fin (- 2500)) (Fin 1000) = Fin (- (5 / 2))"
    using round64_minus[of "5 / 2"] thousands_2500 by simp
  show ?thesis
    using C9_formatCurrency[OF millions_small[of 1500000]]
      C9_formatCurrency[OF millions_small[of 2500]]
      C9_formatCurrency[OF millions_small[of 42]]
      C9_formatCurrency[OF millions_small[of 1000000]]
      C9_formatCurrency[OF millions_small[of 999999]]
      C9_formatCurrency[OF millions_small[of 1000]]
      C9_formatCurrency[OF millions_small[of 999]]
      C9_formatCurrency[OF millions_small[of "- 2500"]]
      C9_formatCurrency[OF z] millions_small[of 1500000]
    by (simp add: one_decimal_def no_decimals_def Let_def decimal.simps digit_char_def
        millions_1500000 thousands_2500 thousands_1000 millions_1000000 thousands_999999 m del: rounded_ops)
qed

subsection \<open>C10: the ROI multiple and the power factor\<close>

text \<open>
  C10 as stated fails: the ROI multiple is not always equal to the power factor,
  since each of the four operations between them rounds. With a revenue of 98, a
  multiple of 1, a rate of 100 percent, one year and an investment of 1, all in
  units, the power factor is 2 and the ROI multiple is \<open>2 - 2 powi (-52)\<close>. At the
  initial state, with the correctly rounded power, the two differ in the last
  bit.
\<close>

theorem C10_counterexample:
  "roiAtteso (results pow_cr
      \<lparr>ricaviY5 = Fin 98, ricaviUnita = ONES, multiplo = Fin 1, discountRate = Fin 100,
       anni = Fin 1, investimento = Fin 1, investUnita = ONES, settore = ''SaaS''\<rparr>)
     = Fin (9007199254740991 / 4503599627370496)
   \<and> powerFactor (results pow_cr
      \<lparr>ricaviY5 = Fin 98, ricaviUnita = ONES, multiplo = Fin 1, discountRate = Fin 100,
       anni = Fin 1, investimento = Fin 1, investUnita = ONES, settore = ''SaaS''\<rparr>)
     = Fin 2
   \<and> valuationToday (results pow_cr
      \<lparr>ricaviY5 = Fin 98, ricaviUnita = ONES, multiplo = Fin 1, discountRate = Fin 100,
       anni = Fin 1, investimento = Fin 1, investUnita = ONES, settore = ''SaaS''\<rparr>)
     = Fin 49
   \<and> roiAtteso (results pow_cr initialState) = Fin (3608359491927371 / 562949953421312)
   \<and> powerFactor (results pow_cr initialState) = Fin (7216718983854743 / 1125899906842624)
   \<and> \<not> num_eq (roiAtteso (results pow_cr initialState)) (powerFactor (results pow_cr initialState))"
  by (simp add: results_initial num_eq_def)
    (simp add: results_def Let_def ONES_def
      revenue_98 investment_one rate_100 base_100 power_100 valuation_98 ownership_98 payout_98 roi_98
      del: rounded_ops)

text \<open>
  C10, amended. For every input for which the valuation today, the ownership,
  the product of exit value and ownership, and the ROI multiple are finite and
  in the normal range, the ROI multiple and the power factor are finite and
  differ by at most \<open>5 * 2 powi (-53)\<close> times the power factor: the investment and
  the exit value cancel up to the rounding of four operations.
\<close>

theorem C10_roi_near_power_factor:
  assumes "normal_finite (valuationToday (results pw s))"
    and "normal_finite (vcOwnership (results pw s))"
    and "normal_finite (num_mul (exitValue (results pw s)) (vcOwnership (results pw s)))"
    and "normal_finite (roiAtteso (results pw s))"
  shows "\<exists>\<rho> p. roiAtteso (results pw s) = Fin \<rho> \<and> powerFactor (results pw s) = Fin p
           \<and> \<bar>\<rho> - p\<bar> \<le> 5 * 2 powi (- 53) * \<bar>p\<bar>"
proof -
  let ?ev = "num_mul (num_mul (ricaviY5 s) (ricaviUnita s)) (multiplo s)"
  let ?inv = "num_mul (investimento s) (investUnita s)"
  let ?pf = "Math_pow pw (num_add (Fin 1) (num_div (discountRate s) (Fin 100))) (anni s)"
  let ?u = "(2::real) powi (- 53)"
  have u: "0 < 1 - ?u" by simp
  obtain v where v: "num_div ?ev ?pf = Fin v" "2 powi (- 1022) \<le> \<bar>v\<bar>"
    using normal_finiteD[OF assms(1)] by (auto simp: results_def Let_def)
  obtain e p where ep: "?ev = Fin e" "?pf = Fin p" "round64 (e / p) = Fin v"
    using num_div_FinD[OF v(1)] by blast
  obtain o' where o: "num_div ?inv (Fin v) = Fin o'" "2 powi (- 1022) \<le> \<bar>o'\<bar>"
    using normal_finiteD[OF assms(2)] v(1) by (auto simp: results_def Let_def)
  obtain i where i: "?inv = Fin i" "round64 (i / v) = Fin o'"
    using num_div_FinD[OF o(1)] by auto
  obtain t where t: "num_mul (Fin e) (Fin o') = Fin t" "2 powi (- 1022) \<le> \<bar>t\<bar>"
    using normal_finiteD[OF assms(3)] v(1) o(1) ep(1) by (auto simp: results_def Let_def)
  then have rt: "round64 (e * o') = Fin t" by simp
  obtain \<rho> where r: "num_div (Fin t) (Fin i) = Fin \<rho>" "2 powi (- 1022) \<le> \<bar>\<rho>\<bar>"
    using normal_finiteD[OF assms(4)] v(1) o(1) ep(1) i(1) t(1)
    by (auto simp: results_def Let_def)
  then have rr: "round64 (t / i) = Fin \<rho>" by simp
  obtain a1 where a1: "e / p = v * a1" "1 - ?u \<le> a1" "a1 \<le> 1 + ?u"
    using rounding_factor[OF ep(3) v(2)] by blast
  obtain a2 where a2: "i / v = o' * a2" "1 - ?u \<le> a2" "a2 \<le> 1 + ?u"
    using rounding_factor[OF i(2) o(2)] by blast
  obtain a3 where a3: "e * o' = t * a3" "1 - ?u \<le> a3" "a3 \<le> 1 + ?u"
    using rounding_factor[OF rt t(2)] by blast
  obtain a4 where a4: "t / i = \<rho> * a4" "1 - ?u \<le> a4" "a4 \<le> 1 + ?u"
    using rounding_factor[OF rr r(2)] by blast
  have nz: "v \<noteq> 0" "o' \<noteq> 0" "t \<noteq> 0" "\<rho> \<noteq> 0"
    using round64_Fin_nonzero ep(3) i(2) rt rr by blast+
  have "\<rho> = p * (a1 / (a2 * a3 * a4))"
    using a1(1) a2(1) a3(1) a4(1) nz
  proof (rule cancel_chain)
    show "0 < a1" "0 < a2" "0 < a3" "0 < a4" using u a1(2) a2(2) a3(2) a4(2) by linarith+
  qed
  then have "\<rho> - p = p * (a1 / (a2 * a3 * a4) - 1)" by (simp add: algebra_simps)
  then have "\<bar>\<rho> - p\<bar> = \<bar>p\<bar> * \<bar>a1 / (a2 * a3 * a4) - 1\<bar>" by (simp add: abs_mult)
  also have "\<dots> \<le> \<bar>p\<bar> * (5 * ?u)"
    using ratio_bound[OF a1(2,3) a2(2,3) a3(2,3) a4(2,3)] by (intro mult_left_mono) simp_all
  finally have "\<bar>\<rho> - p\<bar> \<le> 5 * ?u * \<bar>p\<bar>" by (simp add: mult_ac)
  moreover have "roiAtteso (results pw s) = Fin \<rho>" "powerFactor (results pw s) = Fin p"
    using v(1) o(1) ep i(1) t(1) r(1) by (simp_all add: results_def Let_def)
  ultimately show ?thesis by blast
qed

text \<open>
  The theorem at the initial state.
\<close>

theorem C10_roi_near_power_factor_witness:
  "normal_finite (valuationToday (results pow_cr initialState))
   \<and> normal_finite (vcOwnership (results pow_cr initialState))
   \<and> normal_finite (num_mul (exitValue (results pow_cr initialState))
        (vcOwnership (results pow_cr initialState)))
   \<and> normal_finite (roiAtteso (results pow_cr initialState))
   \<and> (\<exists>\<rho> p. roiAtteso (results pow_cr initialState) = Fin \<rho>
        \<and> powerFactor (results pow_cr initialState) = Fin p
        \<and> \<bar>\<rho> - p\<bar> \<le> 5 * 2 powi (- 53) * \<bar>p\<bar>)"
proof -
  have h: "normal_finite (valuationToday (results pow_cr initialState))"
    "normal_finite (vcOwnership (results pow_cr initialState))"
    "normal_finite (num_mul (exitValue (results pow_cr initialState))
        (vcOwnership (results pow_cr initialState)))"
    "normal_finite (roiAtteso (results pow_cr initialState))"
    by (simp_all add: results_initial payout_initial del: rounded_ops)
  from C10_roi_near_power_factor[OF h] h show ?thesis by blast
qed

end
